theory Spec2Isabelle
  imports Main "HOL-Library.Word"
begin

section \<open>The INA3221 backend of energymon (jetson/energymon-jetson.c)\<close>

text \<open>
  A shallow embedding of the sysfs rail discovery, the polling-interval resolver, the
  life cycle (init, finish, the getters) and the background sampling loop of
  \<^verbatim>\<open>energymon-jetson.c\<close>.

  Conventions. The target is 64-bit Linux (the Jetson boards are aarch64), so
  \<^verbatim>\<open>unsigned long\<close> and \<^verbatim>\<open>uint64_t\<close> are both 64-bit words whose arithmetic
  wraps around. \<^verbatim>\<open>errno\<close> is a field of the world that every function threads
  through; the value 0 is \<open>None\<close>. What the kernel answers (the bytes of a sysfs file,
  whether \<^verbatim>\<open>open\<close> succeeds, what a write to the standard error stream leaves
  in errno, the clock) is input of the model. A call whose behaviour C leaves undefined
  has no result: the functions of the life cycle return an \<open>option\<close>, and \<open>None\<close>
  means that the call does not return.
\<close>

subsection \<open>Machine types and errno\<close>

type_synonym ulong = "64 word"
type_synonym u64 = "64 word"

datatype errno =
  ENOENT | EIO | EACCES | EEXIST | ENODEV | EINVAL | ENOMEM | ERANGE | EAGAIN | ESRCH | EMFILE

definition INA3221_CHANNELS_MAX :: nat where
  "INA3221_CHANNELS_MAX = 3"

definition INA3221_MIN_POLLING_DELAY_US :: ulong where
  "INA3221_MIN_POLLING_DELAY_US = 1000"

definition INA3221_DEFAULT_POLLING_DELAY_US :: ulong where
  "INA3221_DEFAULT_POLLING_DELAY_US = 100000"

definition NUM_RAILS_DEFAULT_MAX :: nat where
  "NUM_RAILS_DEFAULT_MAX = 6"

subsection \<open>The monitor state\<close>

text \<open>
  \<^verbatim>\<open>struct energymon_jetson\<close>. The flexible array \<^verbatim>\<open>fds[]\<close> is a list that keeps
  the length it was allocated with; \<open>count\<close> says how many of its entries are in use.
  The thread handle is not a field here: whether the thread exists is part of the world.
  The monitor handle \<^verbatim>\<open>em->state\<close> is an \<open>energymon_jetson option\<close>, \<open>None\<close> for
  the NULL pointer.
\<close>

record energymon_jetson =
  polling_delay_us :: ulong
  poll_sensors :: int
  total_uj :: u64
  count :: nat
  fds :: "int list"

subsection \<open>The world: errno, descriptors, heap blocks, the thread, stderr\<close>

text \<open>
  \<open>w_open\<close> lists the descriptors that are open beyond the standard streams (directory
  streams and power files), \<open>w_live\<close> counts the heap blocks that are allocated and not
  freed, \<open>w_budget\<close> is the number of allocation calls that will still succeed (every
  later one returns NULL with ENOMEM), and \<open>w_thread\<close> says whether the sampling thread
  has been created and not joined. \<open>w_stderr\<close> is what a write to the standard error
  stream does to errno: \<open>None\<close> when it leaves errno as it was, otherwise the error
  number it leaves there (EINVAL or EBADF when the stream cannot be written the way libc
  tries to).
\<close>

record world =
  w_errno :: "errno option"
  w_open :: "int list"
  w_live :: nat
  w_budget :: nat
  w_thread :: bool
  w_stderr :: "errno option"

text \<open>\<^verbatim>\<open>perror\<close> and \<^verbatim>\<open>fprintf(stderr, ...)\<close>: the only effect kept is the one on errno.\<close>

definition stderr_write :: "world \<Rightarrow> world" where
  "stderr_write w = (case w_stderr w of None \<Rightarrow> w | Some e \<Rightarrow> w\<lparr>w_errno := Some e\<rparr>)"

subsection \<open>The background sampling loop\<close>

text \<open>
  One \<^verbatim>\<open>pread\<close> of a power file followed by \<^verbatim>\<open>strtoul\<close> of the 8-byte buffer:
  bytes were read and parse to a value, nothing was read (the call returned 0), or the
  call failed and set errno.
\<close>

datatype pread_result = PreadBytes ulong | PreadEof | PreadErr errno

text \<open>
  The \<^verbatim>\<open>for\<close> loop that reads the sensors (\<^verbatim>\<open>sum_mw = 0, errno = 0\<close> before it):
  it stops at the first read that sets errno and returns the sum so far with errno.
\<close>

fun read_sensors :: "(int \<Rightarrow> pread_result) \<Rightarrow> int list \<Rightarrow> ulong \<Rightarrow> ulong \<times> errno option" where
  "read_sensors rd [] sum_mw = (sum_mw, None)"
| "read_sensors rd (fd # rest) sum_mw =
     (case rd fd of
        PreadBytes v \<Rightarrow> read_sensors rd rest (sum_mw + v)
      | PreadEof \<Rightarrow> read_sensors rd rest sum_mw
      | PreadErr e \<Rightarrow> (sum_mw, Some e))"

text \<open>
  The body of the \<^verbatim>\<open>while\<close> loop up to the sleep: \<open>exec_us\<close> is what
  \<^verbatim>\<open>energymon_gettime_elapsed_us\<close> returns for this tick.
\<close>

definition poll_tick :: "energymon_jetson \<Rightarrow> (int \<Rightarrow> pread_result) \<Rightarrow> u64 \<Rightarrow> energymon_jetson" where
  "poll_tick st rd exec_us =
     (case read_sensors rd (take (count st) (fds st)) 0 of
        (sum_mw, Some e) \<Rightarrow> st
      | (sum_mw, None) \<Rightarrow> st\<lparr>total_uj := total_uj st + (sum_mw * exec_us) div 1000\<rparr>)"

text \<open>
  What the loop meets while it runs: a tick (the reads of that tick and the elapsed
  time), or the controlling thread clearing \<^verbatim>\<open>poll_sensors\<close>. The loop tests the
  flag before every tick; once it is 0 the thread returns and no later tick happens.
\<close>

datatype event = Tick "int \<Rightarrow> pread_result" u64 | Stop

fun poll_loop :: "energymon_jetson \<Rightarrow> event list \<Rightarrow> energymon_jetson" where
  "poll_loop st [] = st"
| "poll_loop st (Stop # evs) = poll_loop (st\<lparr>poll_sensors := 0\<rparr>) evs"
| "poll_loop st (Tick rd exec_us # evs) =
     (if poll_sensors st \<noteq> 0 then poll_loop (poll_tick st rd exec_us) evs else st)"

text \<open>
  \<^verbatim>\<open>jetson_poll_sensors\<close>: \<open>start_us\<close> is what \<^verbatim>\<open>energymon_gettime_us\<close>
  returns at the start; 0 means there is no monotonic clock and the thread returns at once.
\<close>

definition jetson_poll_sensors :: "energymon_jetson \<Rightarrow> u64 \<Rightarrow> event list \<Rightarrow> energymon_jetson" where
  "jetson_poll_sensors st start_us evs = (if start_us = 0 then st else poll_loop st evs)"

subsection \<open>The getters\<close>

definition energymon_read_total_jetson :: "energymon_jetson option \<Rightarrow> world \<Rightarrow> u64 \<times> world" where
  "energymon_read_total_jetson em w =
     (case em of
        None \<Rightarrow> (0, w\<lparr>w_errno := Some EINVAL\<rparr>)
      | Some st \<Rightarrow> (total_uj st, w\<lparr>w_errno := None\<rparr>))"

definition energymon_get_interval_jetson :: "energymon_jetson option \<Rightarrow> world \<Rightarrow> u64 \<times> world" where
  "energymon_get_interval_jetson em w =
     (case em of
        None \<Rightarrow> (0, w\<lparr>w_errno := Some EINVAL\<rparr>)
      | Some st \<Rightarrow> (polling_delay_us st, w))"

definition energymon_get_precision_jetson :: "energymon_jetson option \<Rightarrow> world \<Rightarrow> u64 \<times> world" where
  "energymon_get_precision_jetson em w =
     (case em of
        None \<Rightarrow> (0, w\<lparr>w_errno := Some EINVAL\<rparr>)
      | Some st \<Rightarrow>
          (case energymon_get_interval_jetson em w of
             (interval, w') \<Rightarrow>
               (let prec = interval div 1000 in (if prec \<noteq> 0 then prec else 1, w'))))"

subsection \<open>C strings and \<^verbatim>\<open>strtoul\<close>\<close>

text \<open>
  A C string ends at its first NUL byte. \<^verbatim>\<open>strncmp(a, b, n) == 0\<close> compares the
  first \<open>n\<close> characters of the two strings.
\<close>

definition NUL :: char where
  "NUL = CHR 0x00"

definition NL :: char where
  "NL = CHR 0x0A"

definition c_str :: "string \<Rightarrow> string" where
  "c_str s = takeWhile (\<lambda>c. c \<noteq> NUL) s"

definition strncmp_eq :: "string \<Rightarrow> string \<Rightarrow> nat \<Rightarrow> bool" where
  "strncmp_eq a b n \<longleftrightarrow> take n (c_str a) = take n (c_str b)"

text \<open>
  \<^verbatim>\<open>strtoul(nptr, NULL, 0)\<close> as the C standard and glibc have it: white space is
  skipped, a sign is accepted, a leading \<^verbatim>\<open>0x\<close> selects base 16 and a leading
  \<^verbatim>\<open>0\<close> base 8, the longest run of digits of the base is converted and whatever
  follows is ignored. The result is the value and the error the call stores in errno
  (\<open>None\<close> when it stores none): no digits give 0 and no error, a number that does not fit
  gives \<^verbatim>\<open>ULONG_MAX\<close> and ERANGE, and a minus sign negates the value modulo
  \<open>2^64\<close>.
\<close>

definition isspace :: "char \<Rightarrow> bool" where
  "isspace c \<longleftrightarrow> of_char c = (32 :: int) \<or> (9 \<le> (of_char c :: int) \<and> (of_char c :: int) \<le> 13)"

definition digit_value :: "char \<Rightarrow> int" where
  "digit_value c =
     (let n = of_char c :: int in
      if 48 \<le> n \<and> n \<le> 57 then n - 48
      else if 97 \<le> n \<and> n \<le> 122 then n - 87
      else if 65 \<le> n \<and> n \<le> 90 then n - 55
      else 36)"

definition strtoul :: "string \<Rightarrow> ulong \<times> errno option" where
  "strtoul nptr =
     (let s = dropWhile isspace nptr;
          neg = (s \<noteq> [] \<and> hd s = CHR ''-'');
          s1 = (if s \<noteq> [] \<and> (hd s = CHR ''-'' \<or> hd s = CHR ''+'') then tl s else s);
          hex = (2 \<le> length s1 \<and> s1 ! 0 = CHR ''0'' \<and> (s1 ! 1 = CHR ''x'' \<or> s1 ! 1 = CHR ''X''));
          base = (if hex then 16 else if s1 \<noteq> [] \<and> hd s1 = CHR ''0'' then 8 else 10);
          s2 = (if hex then drop 2 s1 else s1);
          ds = takeWhile (\<lambda>c. digit_value c < base) s2;
          n = foldl (\<lambda>a c. a * base + digit_value c) 0 ds
      in if ds = [] then (0, None)
         else if 2 ^ 64 \<le> n then (- 1, Some ERANGE)
         else (word_of_int (if neg then - n else n), None))"

subsection \<open>The polling-interval resolver\<close>

text \<open>
  \<^verbatim>\<open>get_polling_delay_us\<close>. The first argument is what \<^verbatim>\<open>getenv\<close> returns for
  \<^verbatim>\<open>ENERGYMON_JETSON_INTERVAL_US\<close> (\<open>None\<close> for NULL). The source sets errno to 0,
  calls \<^verbatim>\<open>strtoul\<close> and tests errno only. The result 0 is the failure value.
\<close>

definition get_polling_delay_us :: "string option \<Rightarrow> ulong \<Rightarrow> world \<Rightarrow> ulong \<times> world" where
  "get_polling_delay_us polling_interval_env sysfs_polling_delay_us w =
     (case polling_interval_env of
        Some text \<Rightarrow>
          (case strtoul text of
             (us, Some e) \<Rightarrow> (0, stderr_write (w\<lparr>w_errno := Some e\<rparr>))
           | (us, None) \<Rightarrow>
               (if us < INA3221_MIN_POLLING_DELAY_US then INA3221_MIN_POLLING_DELAY_US else us,
                w\<lparr>w_errno := None\<rparr>))
      | None \<Rightarrow>
          (let us = (if sysfs_polling_delay_us < INA3221_DEFAULT_POLLING_DELAY_US
                     then INA3221_DEFAULT_POLLING_DELAY_US else sysfs_polling_delay_us)
           in (if us < INA3221_MIN_POLLING_DELAY_US then INA3221_MIN_POLLING_DELAY_US else us, w)))"

subsection \<open>The sysfs tree\<close>

text \<open>
  A sysfs text file as \<^verbatim>\<open>read_string\<close> meets it: it cannot be opened or read
  (errno is set), or \<^verbatim>\<open>read\<close> returns its bytes (none for an empty file).
  A channel of a device directory is its three files: \<^verbatim>\<open>rail_name_N\<close>,
  \<^verbatim>\<open>in_powerN_input\<close> (\<open>None\<close> when \<^verbatim>\<open>open\<close> succeeds, otherwise the errno
  of the failure) and \<^verbatim>\<open>polling_delay_N\<close> as \<^verbatim>\<open>read_long\<close> meets it: it
  cannot be opened or read (errno is set), \<^verbatim>\<open>read\<close> returns no bytes, or it
  holds a text, given by the value \<^verbatim>\<open>strtol\<close> returns for it and the error
  \<^verbatim>\<open>strtol\<close> stores in errno.
\<close>

datatype sysfs_file = Unreadable errno | Content string

datatype delay_file = DelayUnreadable errno | DelayEmpty | DelayText int "errno option"

record channel =
  rail_name :: sysfs_file
  in_power :: "errno option"
  polling_delay :: delay_file

datatype dirent_type = DT_DIR | DT_LNK | DT_REG | DT_UNKNOWN

record dirent =
  d_type :: dirent_type
  d_name :: string

text \<open>
  A device directory lists its channels by number. With it comes \<open>name_stack\<close>: the
  bytes that the uninitialised local \<^verbatim>\<open>char name[64]\<close> of
  \<^verbatim>\<open>ina3221x_walk_device_dir\<close> holds when the directory is walked. A directory is
  what \<^verbatim>\<open>opendir\<close> answers: an errno, or the entries \<^verbatim>\<open>readdir\<close> yields in
  order, each with what lies under it.
\<close>

record device_dir =
  name_stack :: string
  channels :: "channel list"

type_synonym bus_addr_dir = "errno + (dirent \<times> device_dir) list"
type_synonym i2c_drivers_dir = "errno + (dirent \<times> bus_addr_dir) list"

definition channel_files :: "device_dir \<Rightarrow> nat \<Rightarrow> channel" where
  "channel_files dev ch =
     (if ch < length (channels dev) then channels dev ! ch
      else \<lparr>rail_name = Unreadable ENOENT, in_power = Some ENOENT, polling_delay = DelayUnreadable ENOENT\<rparr>)"

text \<open>The 64 bytes of the buffer: the stack bytes, filled up with NUL when fewer are given.\<close>

definition stack_buffer :: "string \<Rightarrow> string" where
  "stack_buffer g = take 64 (g @ replicate 64 NUL)"

text \<open>
  \<^verbatim>\<open>open\<close> and \<^verbatim>\<open>opendir\<close> take the lowest descriptor that is free.
  Descriptors 0, 1 and 2 are the standard streams and stay open, so the lowest candidate
  is 3. A descriptor that is opened and closed again inside one call (the name and delay
  files) is not recorded.
\<close>

definition fresh_fd :: "int list \<Rightarrow> int" where
  "fresh_fd opn =
     (case filter (\<lambda>fd. fd \<notin> set opn) (map (\<lambda>n. int n + 3) [0..<Suc (length opn)]) of
        [] \<Rightarrow> int (length opn) + 3
      | fd # rest \<Rightarrow> fd)"

definition sys_open :: "world \<Rightarrow> int \<times> world" where
  "sys_open w = (let fd = fresh_fd (w_open w) in (fd, w\<lparr>w_open := fd # w_open w\<rparr>))"

definition sys_close :: "int \<Rightarrow> world \<Rightarrow> world" where
  "sys_close fd w = w\<lparr>w_open := removeAll fd (w_open w)\<rparr>"

text \<open>
  \<^verbatim>\<open>read_string\<close>. \<open>str\<close> is the caller's buffer of \<open>len\<close> bytes. \<^verbatim>\<open>read\<close>
  overwrites its first bytes with the bytes of the file and leaves the rest;
  \<^verbatim>\<open>strcspn(str, "\n")\<close> is the index of the first newline or NUL, and when it lies
  inside the buffer that byte becomes NUL. (When there is neither in the buffer the
  source reads on behind it; an index found there is not below \<open>len\<close>.)
\<close>

definition strcspn_nl :: "string \<Rightarrow> nat" where
  "strcspn_nl str = length (takeWhile (\<lambda>c. c \<noteq> NL \<and> c \<noteq> NUL) str)"

definition read_string :: "sysfs_file \<Rightarrow> string \<Rightarrow> nat \<Rightarrow> world \<Rightarrow> int \<times> string \<times> world" where
  "read_string file str len w =
     (case file of
        Unreadable e \<Rightarrow> (- 1, str, w\<lparr>w_errno := Some e\<rparr>)
      | Content s \<Rightarrow>
          (let got = take len s in
           if 0 < length got then
             (let str1 = got @ drop (length got) str;
                  end = strcspn_nl str1
              in (0, if end < len then str1[end := NUL] else str1, w))
           else (0, str, w)))"

text \<open>
  \<^verbatim>\<open>read_long\<close> returns -1 when the file cannot be opened or \<^verbatim>\<open>read\<close>
  returns nothing. Otherwise it sets errno to 0, keeps the value of \<^verbatim>\<open>strtol\<close> in
  an \<^verbatim>\<open>int\<close>, so that only its low 32 bits survive, and turns 0 with errno set
  into -1.
\<close>

definition read_long :: "delay_file \<Rightarrow> world \<Rightarrow> int \<times> world" where
  "read_long file w =
     (case file of
        DelayUnreadable e \<Rightarrow> (- 1, w\<lparr>w_errno := Some e\<rparr>)
      | DelayEmpty \<Rightarrow> (- 1, w)
      | DelayText v err \<Rightarrow>
          (let ret = sint (word_of_int v :: 32 word)
           in (if ret = 0 \<and> err \<noteq> None then - 1 else ret, w\<lparr>w_errno := err\<rparr>)))"

definition ina3221x_try_read_rail_name :: "channel \<Rightarrow> string \<Rightarrow> nat \<Rightarrow> world \<Rightarrow> int \<times> string \<times> world" where
  "ina3221x_try_read_rail_name c name len w = read_string (rail_name c) name len w"

definition ina3221x_try_read_polling_delay_us :: "channel \<Rightarrow> world \<Rightarrow> int \<times> world" where
  "ina3221x_try_read_polling_delay_us c w =
     (case read_long (polling_delay c) w of (v, w') \<Rightarrow> (v * 1000, w'))"

text \<open>\<^verbatim>\<open>ina3221x_open_power_file\<close> calls \<^verbatim>\<open>perror\<close> when \<^verbatim>\<open>open\<close> fails.\<close>

definition ina3221x_open_power_file :: "channel \<Rightarrow> world \<Rightarrow> int \<times> world" where
  "ina3221x_open_power_file c w =
     (case in_power c of
        Some e \<Rightarrow> (- 1, stderr_write (w\<lparr>w_errno := Some e\<rparr>))
      | None \<Rightarrow> sys_open w)"

definition is_iio_device_dir :: "dirent \<Rightarrow> bool" where
  "is_iio_device_dir entry \<longleftrightarrow>
     d_type entry = DT_DIR \<and> 10 < length (d_name entry)
     \<and> d_name entry ! 0 \<noteq> CHR ''.'' \<and> d_name entry ! 3 = CHR '':''"

definition is_i2c_bus_addr_dir :: "dirent \<Rightarrow> bool" where
  "is_i2c_bus_addr_dir entry \<longleftrightarrow>
     (d_type entry = DT_LNK \<or> d_type entry = DT_DIR) \<and> 2 < length (d_name entry)
     \<and> d_name entry ! 0 \<noteq> CHR ''.'' \<and> d_name entry ! 1 = CHR ''-''"

subsection \<open>The walk\<close>

text \<open>
  The inner \<^verbatim>\<open>for\<close> loop of \<^verbatim>\<open>ina3221x_walk_device_dir\<close>, which stops at the
  first index \<open>i\<close> with \<^verbatim>\<open>strncmp(name, names[i], sizeof(name)) == 0\<close>.
\<close>

fun find_rail :: "string \<Rightarrow> string list \<Rightarrow> nat \<Rightarrow> nat option" where
  "find_rail name [] i = None"
| "find_rail name (n # ns) i = (if strncmp_eq name n 64 then Some i else find_rail name ns (Suc i))"

text \<open>
  The channel loop of \<^verbatim>\<open>ina3221x_walk_device_dir\<close>, over the files of the channels
  still to visit. The walk functions return the C return value, the array \<^verbatim>\<open>fds\<close>
  (the variable \<open>fdv\<close>; it is written in place, so also on failure),
  \<^verbatim>\<open>*polling_delay_us_max\<close> and the world. \<open>name\<close> is the local buffer.
  The message for a duplicate is written before errno is set to EEXIST.
\<close>

fun walk_channels ::
  "string list \<Rightarrow> nat \<Rightarrow> channel list \<Rightarrow> string \<Rightarrow> int list \<Rightarrow> ulong \<Rightarrow> world
     \<Rightarrow> int \<times> int list \<times> ulong \<times> world" where
  "walk_channels names len [] name fdv d w = (0, fdv, d, w)"
| "walk_channels names len (c # cs) name fdv d w =
     (case ina3221x_try_read_rail_name c name 64 (w\<lparr>w_errno := None\<rparr>) of
        (ret, name', w1) \<Rightarrow>
          if ret < 0 then
            (if w_errno w1 = Some ENOENT then walk_channels names len cs name' fdv d w1
             else (- 1, fdv, d, w1))
          else
            (case find_rail name' (take len names) 0 of
               None \<Rightarrow> walk_channels names len cs name' fdv d w1
             | Some i \<Rightarrow>
                 if fdv ! i \<noteq> 0 then (- 1, fdv, d, (stderr_write w1)\<lparr>w_errno := Some EEXIST\<rparr>)
                 else
                   (case ina3221x_open_power_file c w1 of
                      (fd, w2) \<Rightarrow>
                        if fd < 0 then (- 1, fdv[i := fd], d, w2)
                        else
                          (case ina3221x_try_read_polling_delay_us c w2 of
                             (pd, w3) \<Rightarrow>
                               walk_channels names len cs name' (fdv[i := fd])
                                 (if 0 < pd \<and> d < word_of_int pd then word_of_int pd else d) w3))))"

definition ina3221x_walk_device_dir ::
  "string list \<Rightarrow> int list \<Rightarrow> nat \<Rightarrow> ulong \<Rightarrow> device_dir \<Rightarrow> world
     \<Rightarrow> int \<times> int list \<times> ulong \<times> world" where
  "ina3221x_walk_device_dir names fdv len d dev w =
     walk_channels names len (map (channel_files dev) [0..<INA3221_CHANNELS_MAX])
       (stack_buffer (name_stack dev)) fdv d w"

fun walk_device_entries ::
  "string list \<Rightarrow> nat \<Rightarrow> (dirent \<times> device_dir) list \<Rightarrow> int list \<Rightarrow> ulong \<Rightarrow> world
     \<Rightarrow> int \<times> int list \<times> ulong \<times> world" where
  "walk_device_entries names len [] fdv d w = (0, fdv, d, w)"
| "walk_device_entries names len ((entry, dev) # rest) fdv d w =
     (if is_iio_device_dir entry then
        (case ina3221x_walk_device_dir names fdv len d dev w of
           (ret, fdv', d', w') \<Rightarrow>
             if ret < 0 then (ret, fdv', d', w')
             else walk_device_entries names len rest fdv' d' w')
      else walk_device_entries names len rest fdv d w)"

text \<open>
  \<^verbatim>\<open>ina3221x_walk_bus_addr_dir\<close>: a failed \<^verbatim>\<open>opendir\<close> is reported with
  \<^verbatim>\<open>perror\<close>; otherwise the directory stream holds a descriptor until
  \<^verbatim>\<open>closedir\<close>, which is taken to succeed.
\<close>

definition ina3221x_walk_bus_addr_dir ::
  "string list \<Rightarrow> int list \<Rightarrow> nat \<Rightarrow> ulong \<Rightarrow> bus_addr_dir \<Rightarrow> world
     \<Rightarrow> int \<times> int list \<times> ulong \<times> world" where
  "ina3221x_walk_bus_addr_dir names fdv len d bus w =
     (case bus of
        Inl e \<Rightarrow> (- 1, fdv, d, stderr_write (w\<lparr>w_errno := Some e\<rparr>))
      | Inr entries \<Rightarrow>
          (case sys_open w of
             (dir, w1) \<Rightarrow>
               (case walk_device_entries names len entries fdv d w1 of
                  (ret, fdv', d', w2) \<Rightarrow> (ret, fdv', d', sys_close dir w2))))"

fun walk_bus_entries ::
  "string list \<Rightarrow> nat \<Rightarrow> (dirent \<times> bus_addr_dir) list \<Rightarrow> int list \<Rightarrow> ulong \<Rightarrow> world
     \<Rightarrow> int \<times> int list \<times> ulong \<times> world" where
  "walk_bus_entries names len [] fdv d w = (0, fdv, d, w)"
| "walk_bus_entries names len ((entry, bus) # rest) fdv d w =
     (if is_i2c_bus_addr_dir entry then
        (case ina3221x_walk_bus_addr_dir names fdv len d bus w of
           (ret, fdv', d', w') \<Rightarrow>
             if ret < 0 then (ret, fdv', d', w')
             else walk_bus_entries names len rest fdv' d' w')
      else walk_bus_entries names len rest fdv d w)"

definition ina3221x_walk_i2c_drivers_dir ::
  "string list \<Rightarrow> int list \<Rightarrow> nat \<Rightarrow> ulong \<Rightarrow> i2c_drivers_dir \<Rightarrow> world
     \<Rightarrow> int \<times> int list \<times> ulong \<times> world" where
  "ina3221x_walk_i2c_drivers_dir names fdv len d root w =
     (case root of
        Inl e \<Rightarrow> (- 1, fdv, d, stderr_write (w\<lparr>w_errno := Some e\<rparr>))
      | Inr entries \<Rightarrow>
          (case sys_open w of
             (dir, w1) \<Rightarrow>
               (case walk_bus_entries names len entries fdv d w1 of
                  (ret, fdv', d', w2) \<Rightarrow> (ret, fdv', d', sys_close dir w2))))"

text \<open>\<^verbatim>\<open>close_and_clear_fds\<close>: entries that are not positive are left as they are.\<close>

fun close_and_clear_fds :: "int list \<Rightarrow> nat \<Rightarrow> world \<Rightarrow> int list \<times> world" where
  "close_and_clear_fds fdv 0 w = (fdv, w)"
| "close_and_clear_fds [] (Suc n) w = ([], w)"
| "close_and_clear_fds (fd # rest) (Suc n) w =
     (if 0 < fd then
        (case close_and_clear_fds rest n (sys_close fd w) of (rest', w') \<Rightarrow> (0 # rest', w'))
      else
        (case close_and_clear_fds rest n w of (rest', w') \<Rightarrow> (fd # rest', w')))"

subsection \<open>The default profiles\<close>

text \<open>The arrays have \<^verbatim>\<open>NUM_RAILS_DEFAULT_MAX\<close> entries; \<open>None\<close> is a NULL entry.\<close>

definition DEFAULT_RAIL_NAMES_TX :: "string option list" where
  "DEFAULT_RAIL_NAMES_TX = [Some ''VDD_IN'', Some ''VDD_MUX'', None, None, None, None]"

definition DEFAULT_RAIL_NAMES_VDD_IN :: "string option list" where
  "DEFAULT_RAIL_NAMES_VDD_IN = [Some ''VDD_IN'', None, None, None, None, None]"

definition DEFAULT_RAIL_NAMES_POM_5V_IN :: "string option list" where
  "DEFAULT_RAIL_NAMES_POM_5V_IN = [Some ''POM_5V_IN'', None, None, None, None, None]"

definition DEFAULT_RAIL_NAMES_AGX_XAVIER :: "string option list" where
  "DEFAULT_RAIL_NAMES_AGX_XAVIER =
     [Some ''GPU'', Some ''CPU'', Some ''SOC'', Some ''CV'', Some ''VDDRQ'', Some ''SYS5V'']"

definition DEFAULT_RAIL_NAMES :: "string option list list" where
  "DEFAULT_RAIL_NAMES =
     [DEFAULT_RAIL_NAMES_TX, DEFAULT_RAIL_NAMES_VDD_IN, DEFAULT_RAIL_NAMES_POM_5V_IN,
      DEFAULT_RAIL_NAMES_AGX_XAVIER]"

text \<open>The loop that counts the entries of a profile up to the first NULL.\<close>

definition count_rail_names :: "string option list \<Rightarrow> nat" where
  "count_rail_names profile =
     length (takeWhile (\<lambda>x. x \<noteq> None) (take NUM_RAILS_DEFAULT_MAX profile))"

text \<open>
  The loop over \<open>j\<close> that checks whether all channels were found: at the first entry that
  is not positive it closes and clears the descriptors and breaks.
\<close>

definition check_all_found :: "int list \<Rightarrow> nat \<Rightarrow> world \<Rightarrow> int list \<times> world" where
  "check_all_found fdv n w =
     (if list_ex (\<lambda>fd. fd \<le> 0) (take n fdv) then close_and_clear_fds fdv n w else (fdv, w))"

text \<open>
  The loop over the profiles of \<^verbatim>\<open>ina3221x_walk_i2c_drivers_dir_for_default\<close>. It
  returns the C return value, \<^verbatim>\<open>fds\<close>, \<^verbatim>\<open>*n_fds\<close>, the polling delay and the world.
  After the check loop the source returns 0 whether or not the loop broke.
\<close>

fun walk_default_profiles ::
  "string option list list \<Rightarrow> i2c_drivers_dir \<Rightarrow> int list \<Rightarrow> nat \<Rightarrow> ulong \<Rightarrow> world
     \<Rightarrow> int \<times> int list \<times> nat \<times> ulong \<times> world" where
  "walk_default_profiles [] root fdv n_fds d w = (- 1, fdv, n_fds, d, w\<lparr>w_errno := Some ENODEV\<rparr>)"
| "walk_default_profiles (profile # rest) root fdv n_fds d w =
     (let n = count_rail_names profile in
      case ina3221x_walk_i2c_drivers_dir (map the (take n profile)) fdv n d root w of
        (ret, fds1, d1, w1) \<Rightarrow>
          if ret \<noteq> 0 then (- 1, fds1, n, d1, w1)
          else if 0 < fds1 ! 0 then
            (case check_all_found fds1 n w1 of (fds2, w2) \<Rightarrow> (0, fds2, n, d1, w2))
          else walk_default_profiles rest root fds1 n d1 w1)"

definition ina3221x_walk_i2c_drivers_dir_for_default ::
  "int list \<Rightarrow> nat \<Rightarrow> ulong \<Rightarrow> i2c_drivers_dir \<Rightarrow> world
     \<Rightarrow> int \<times> int list \<times> nat \<times> ulong \<times> world" where
  "ina3221x_walk_i2c_drivers_dir_for_default fdv n_fds d root w =
     walk_default_profiles DEFAULT_RAIL_NAMES root fdv n_fds d w"

subsection \<open>The explicit rail-name list\<close>

text \<open>
  The heap. An allocation call (\<^verbatim>\<open>strdup\<close>, \<^verbatim>\<open>calloc\<close>, \<^verbatim>\<open>realloc\<close> of
  NULL) fails with ENOMEM when the budget is used up, and otherwise adds a live block;
  \<^verbatim>\<open>realloc\<close> of an existing array can fail too, and on success keeps one block.
\<close>

definition alloc :: "world \<Rightarrow> bool \<times> world" where
  "alloc w =
     (if w_budget w = 0 then (False, w\<lparr>w_errno := Some ENOMEM\<rparr>)
      else (True, w\<lparr>w_budget := w_budget w - 1, w_live := Suc (w_live w)\<rparr>))"

definition realloc_arr :: "bool \<Rightarrow> world \<Rightarrow> bool \<times> world" where
  "realloc_arr is_null w =
     (if w_budget w = 0 then (False, w\<lparr>w_errno := Some ENOMEM\<rparr>)
      else (True, w\<lparr>w_budget := w_budget w - 1,
                     w_live := (if is_null then Suc (w_live w) else w_live w)\<rparr>))"

definition free_blocks :: "nat \<Rightarrow> world \<Rightarrow> world" where
  "free_blocks n w = w\<lparr>w_live := w_live w - n\<rparr>"

text \<open>
  The tokens \<^verbatim>\<open>strtok_r\<close> yields for the delimiter \<^verbatim>\<open>","\<close>: the maximal runs
  of other characters, so empty fields give no token. \<open>cur\<close> is the token being read.
\<close>

fun strtok_all :: "string \<Rightarrow> string \<Rightarrow> string list" where
  "strtok_all [] cur = (if cur = [] then [] else [cur])"
| "strtok_all (c # cs) cur =
     (if c = CHR '','' then (if cur = [] then strtok_all cs [] else cur # strtok_all cs [])
      else strtok_all cs (cur @ [c]))"

text \<open>
  The \<^verbatim>\<open>while\<close> loop of \<^verbatim>\<open>strtok_to_arr_r\<close> over the tokens still to copy;
  \<open>arr\<close> holds the \<^verbatim>\<open>*n\<close> strings copied so far and is NULL while it is empty.
  On a failed allocation the label \<^verbatim>\<open>fail\<close> frees the strings and the array.
\<close>

fun strtok_to_arr_loop :: "string list \<Rightarrow> string list \<Rightarrow> world \<Rightarrow> string list option \<times> world" where
  "strtok_to_arr_loop [] arr w = (Some arr, w)"
| "strtok_to_arr_loop (tok # toks) arr w =
     (case realloc_arr (arr = []) w of
        (False, w1) \<Rightarrow> (None, free_blocks (length arr + (if arr = [] then 0 else 1)) w1)
      | (True, w1) \<Rightarrow>
          (case alloc w1 of
             (False, w2) \<Rightarrow> (None, free_blocks (length arr + 1) w2)
           | (True, w2) \<Rightarrow> strtok_to_arr_loop toks (arr @ [tok]) w2))"

text \<open>The result is the array, \<open>None\<close> for NULL: also when there was no token at all.\<close>

definition strtok_to_arr_r :: "string \<Rightarrow> world \<Rightarrow> string list option \<times> world" where
  "strtok_to_arr_r str w =
     (case strtok_to_arr_loop (strtok_all str []) [] w of
        (Some [], w') \<Rightarrow> (None, w')
      | (r, w') \<Rightarrow> (r, w'))"

definition free_rail_names :: "string list \<Rightarrow> world \<Rightarrow> world" where
  "free_rail_names rail_names w = free_blocks (length rail_names + 1) w"

text \<open>The two nested loops that look for a pair of equal names.\<close>

fun has_duplicate :: "string list \<Rightarrow> bool" where
  "has_duplicate [] = False"
| "has_duplicate (x # xs) = (x \<in> set xs \<or> has_duplicate xs)"

text \<open>
  \<^verbatim>\<open>get_rail_names\<close>. \<^verbatim>\<open>strdup\<close> copies the value of the environment variable
  up to its first NUL. Both messages are written before errno is set to EINVAL.
\<close>

definition get_rail_names :: "string \<Rightarrow> world \<Rightarrow> string list option \<times> world" where
  "get_rail_names rail_names_str w =
     (case alloc w of
        (False, w1) \<Rightarrow> (None, w1)
      | (True, w1) \<Rightarrow>
          (case strtok_to_arr_r (c_str rail_names_str) w1 of
             (rail_names, w2) \<Rightarrow>
               (let w3 = free_blocks 1 w2 in
                case rail_names of
                  None \<Rightarrow>
                    (None, if w_errno w3 = None then (stderr_write w3)\<lparr>w_errno := Some EINVAL\<rparr> else w3)
                | Some names \<Rightarrow>
                    if has_duplicate names
                    then (None, (free_rail_names names (stderr_write w3))\<lparr>w_errno := Some EINVAL\<rparr>)
                    else (Some names, w3))))"

subsection \<open>The life cycle\<close>

text \<open>
  What the process environment answers during \<^verbatim>\<open>energymon_init_jetson\<close>: the two
  environment variables, the sysfs tree under the driver directory, and the return value
  of \<^verbatim>\<open>pthread_create\<close> (\<open>None\<close> for 0).
\<close>

record sysenv =
  rail_names_env :: "string option"
  interval_env :: "string option"
  sysfs :: i2c_drivers_dir
  pthread_create_ret :: "errno option"

text \<open>
  The thread. \<open>w_thread\<close> tells whether \<^verbatim>\<open>state->thread\<close> is the handle of a
  thread. \<^verbatim>\<open>pthread_create\<close> sets it on success; when it fails the handle is still
  the zero that \<^verbatim>\<open>calloc\<close> wrote. \<^verbatim>\<open>pthread_cancel\<close> on a handle that is not a
  thread is undefined (it dereferences the handle): the call does not return.
  \<^verbatim>\<open>pthread_join\<close> of the cancelled thread returns 0.
\<close>

definition pthread_create :: "sysenv \<Rightarrow> world \<Rightarrow> errno option \<times> world" where
  "pthread_create env w =
     (case pthread_create_ret env of
        Some e \<Rightarrow> (Some e, w\<lparr>w_thread := False\<rparr>)
      | None \<Rightarrow> (None, w\<lparr>w_thread := True\<rparr>))"

definition pthread_cancel :: "world \<Rightarrow> world option" where
  "pthread_cancel w = (if w_thread w then Some w else None)"

definition pthread_join :: "world \<Rightarrow> errno option \<times> world" where
  "pthread_join w = (None, w\<lparr>w_thread := False\<rparr>)"

text \<open>The loop of \<^verbatim>\<open>energymon_finish_jetson\<close> that closes the sensor files.\<close>

fun close_sensor_files :: "int list \<Rightarrow> world \<Rightarrow> world" where
  "close_sensor_files [] w = w"
| "close_sensor_files (fd # rest) w =
     (if 0 < fd then close_sensor_files rest (sys_close fd w) else close_sensor_files rest w)"

text \<open>
  \<^verbatim>\<open>energymon_finish_jetson\<close>, for a handle \<^verbatim>\<open>em\<close> that is not NULL; \<open>em\<close>
  is \<^verbatim>\<open>em->state\<close>. The result is \<open>None\<close> when the call does not return.
\<close>

definition energymon_finish_jetson ::
  "energymon_jetson option \<Rightarrow> world \<Rightarrow> (int \<times> energymon_jetson option \<times> world) option" where
  "energymon_finish_jetson em w =
     (case em of
        None \<Rightarrow> Some (- 1, None, w\<lparr>w_errno := Some EINVAL\<rparr>)
      | Some state \<Rightarrow>
          (case (if poll_sensors state \<noteq> 0
                 then map_option pthread_join (pthread_cancel w)
                 else Some (None, w)) of
             None \<Rightarrow> None
           | Some (err_save, w1) \<Rightarrow>
               (let w2 = close_sensor_files (take (count state) (fds state)) w1;
                    w3 = free_blocks 1 w2
                in Some (if err_save \<noteq> None then - 1 else 0, None, w3\<lparr>w_errno := err_save\<rparr>))))"

text \<open>The labels \<^verbatim>\<open>fail_rails\<close> and \<^verbatim>\<open>fail_alloc\<close> of \<^verbatim>\<open>energymon_init_jetson\<close>.\<close>

definition fail_alloc :: "string list option \<Rightarrow> world \<Rightarrow> int \<times> energymon_jetson option \<times> world" where
  "fail_alloc rail_names w =
     (case rail_names of
        Some names \<Rightarrow> (- 1, None, free_rail_names names w)
      | None \<Rightarrow> (- 1, None, w))"

definition fail_rails ::
  "energymon_jetson \<Rightarrow> string list option \<Rightarrow> world \<Rightarrow> int \<times> energymon_jetson option \<times> world" where
  "fail_rails state rail_names w =
     (case close_and_clear_fds (fds state) (count state) w of
        (fdv, w1) \<Rightarrow> fail_alloc rail_names (free_blocks 1 w1))"

text \<open>
  The part of \<^verbatim>\<open>energymon_init_jetson\<close> from \<^verbatim>\<open>em->state = state\<close> on: resolve the
  interval, then start the thread. On either failure it calls
  \<^verbatim>\<open>energymon_finish_jetson\<close> and restores the errno it saved.
\<close>

definition init_start ::
  "sysenv \<Rightarrow> energymon_jetson \<Rightarrow> ulong \<Rightarrow> world \<Rightarrow> (int \<times> energymon_jetson option \<times> world) option" where
  "init_start env state delay_us w =
     (case get_polling_delay_us (interval_env env) delay_us w of
        (us, w1) \<Rightarrow>
          (let state1 = state\<lparr>polling_delay_us := us\<rparr> in
           if polling_delay_us state1 = 0 then
             (case energymon_finish_jetson (Some state1) w1 of
                None \<Rightarrow> None
              | Some (r, em', w2) \<Rightarrow> Some (- 1, em', w2\<lparr>w_errno := w_errno w1\<rparr>))
           else
             (let state2 = state1\<lparr>poll_sensors := 1\<rparr> in
              case pthread_create env w1 of
                (Some e, w2) \<Rightarrow>
                  (case energymon_finish_jetson (Some state2) (w2\<lparr>w_errno := Some e\<rparr>) of
                     None \<Rightarrow> None
                   | Some (r, em', w3) \<Rightarrow> Some (- 1, em', w3\<lparr>w_errno := Some e\<rparr>))
              | (None, w2) \<Rightarrow> Some (0, Some state2, w2\<lparr>w_errno := None\<rparr>))))"

text \<open>
  \<^verbatim>\<open>energymon_init_jetson\<close>, for a handle \<^verbatim>\<open>em\<close> that is not NULL; \<open>em\<close>
  here is \<^verbatim>\<open>em->state\<close>. \<^verbatim>\<open>calloc\<close> zeroes the state, so \<^verbatim>\<open>fds\<close> starts as
  \<open>n_rails\<close> zeros. With explicit names the walk must leave a positive descriptor at
  every index; without them the default profiles are searched and \<open>count\<close> is reduced
  to the number of rails of the profile that was accepted. The message for a rail that
  was not found is written before errno is set to ENODEV; the message for the default
  search is written after it.
\<close>

definition energymon_init_jetson ::
  "sysenv \<Rightarrow> energymon_jetson option \<Rightarrow> world \<Rightarrow> (int \<times> energymon_jetson option \<times> world) option" where
  "energymon_init_jetson env em w =
     (if em \<noteq> None then Some (- 1, em, w\<lparr>w_errno := Some EINVAL\<rparr>)
      else
        (case rail_names_env env of
           Some rail_names_str \<Rightarrow>
             (case get_rail_names rail_names_str w of
                (None, w1) \<Rightarrow> Some (- 1, None, w1)
              | (Some rail_names, w1) \<Rightarrow>
                  (let n_rails = length rail_names in
                   case alloc w1 of
                     (False, w2) \<Rightarrow> Some (fail_alloc (Some rail_names) w2)
                   | (True, w2) \<Rightarrow>
                       (let state = \<lparr>polling_delay_us = 0, poll_sensors = 0, total_uj = 0,
                                     count = n_rails, fds = replicate n_rails 0\<rparr> in
                        case ina3221x_walk_i2c_drivers_dir rail_names (fds state) n_rails 0 (sysfs env) w2 of
                          (ret, fdv, delay_us, w3) \<Rightarrow>
                            if ret \<noteq> 0
                            then Some (fail_rails (state\<lparr>fds := fdv\<rparr>) (Some rail_names) w3)
                            else if list_ex (\<lambda>fd. fd \<le> 0) (take n_rails fdv)
                            then Some (fail_rails (state\<lparr>fds := fdv\<rparr>) (Some rail_names)
                                         ((stderr_write w3)\<lparr>w_errno := Some ENODEV\<rparr>))
                            else init_start env (state\<lparr>fds := fdv\<rparr>) delay_us
                                   (free_rail_names rail_names w3))))
         | None \<Rightarrow>
             (let n_rails = NUM_RAILS_DEFAULT_MAX in
              case alloc w of
                (False, w2) \<Rightarrow> Some (fail_alloc None w2)
              | (True, w2) \<Rightarrow>
                  (let state = \<lparr>polling_delay_us = 0, poll_sensors = 0, total_uj = 0,
                                count = n_rails, fds = replicate n_rails 0\<rparr> in
                   case ina3221x_walk_i2c_drivers_dir_for_default (fds state) n_rails 0 (sysfs env) w2 of
                     (ret, fdv, n_fds, delay_us, w3) \<Rightarrow>
                       if ret \<noteq> 0
                       then Some (fail_rails (state\<lparr>fds := fdv\<rparr>) None
                                    (if w_errno w3 = Some ENODEV then stderr_write w3 else w3))
                       else init_start env (state\<lparr>fds := fdv, count := n_fds\<rparr>) delay_us w3))))"

section \<open>Definitions used to state the properties\<close>

subsection \<open>Sampling\<close>

text \<open>The value one descriptor contributes to \<^verbatim>\<open>sum_mw\<close> in a tick.\<close>

definition power_mw :: "(int \<Rightarrow> pread_result) \<Rightarrow> int \<Rightarrow> ulong" where
  "power_mw rd fd = (case rd fd of PreadBytes v \<Rightarrow> v | PreadEof \<Rightarrow> 0 | PreadErr e \<Rightarrow> 0)"

text \<open>The sum of the values read in a tick, as a natural number (no wrap-around).\<close>

definition power_sum_mw :: "energymon_jetson \<Rightarrow> (int \<Rightarrow> pread_result) \<Rightarrow> nat" where
  "power_sum_mw st rd = sum_list (map (\<lambda>fd. unat (power_mw rd fd)) (take (count st) (fds st)))"

text \<open>
  The energy of a tick in microjoules, from the readings and the elapsed time alone, in
  unbounded integers: the sum of the readings in mW times the elapsed microseconds,
  divided by 1000; nothing for a tick in which the read of a rail fails. The energy of a
  run of events is the sum over its ticks up to the first stop.
\<close>

definition read_fails :: "(int \<Rightarrow> pread_result) \<Rightarrow> int list \<Rightarrow> bool" where
  "read_fails rd l = list_ex (\<lambda>fd. case rd fd of PreadErr e \<Rightarrow> True | PreadBytes v \<Rightarrow> False | PreadEof \<Rightarrow> False) l"

definition tick_energy :: "energymon_jetson \<Rightarrow> (int \<Rightarrow> pread_result) \<Rightarrow> u64 \<Rightarrow> nat" where
  "tick_energy st rd elapsed_us =
     (if read_fails rd (take (count st) (fds st)) then 0
      else power_sum_mw st rd * unat elapsed_us div 1000)"

fun energy_added :: "energymon_jetson \<Rightarrow> event list \<Rightarrow> nat" where
  "energy_added st [] = 0"
| "energy_added st (Stop # evs) = 0"
| "energy_added st (Tick rd elapsed_us # evs) =
     (if poll_sensors st = 0 then 0 else tick_energy st rd elapsed_us + energy_added st evs)"

text \<open>In every tick of the run the product of the sum and the elapsed time fits in 64 bits.\<close>

fun products_fit :: "energymon_jetson \<Rightarrow> event list \<Rightarrow> bool" where
  "products_fit st [] = True"
| "products_fit st (Stop # evs) = True"
| "products_fit st (Tick rd elapsed_us # evs) =
     (power_sum_mw st rd * unat elapsed_us < 2 ^ 64 \<and> products_fit st evs)"

subsection \<open>Unsigned decimal numbers\<close>




subsection \<open>Comma-separated lists\<close>

text \<open>
  The fields of a text that commas separate, and the names such a list gives: its
  fields that are not empty.
\<close>

fun fields :: "string \<Rightarrow> string list" where
  "fields [] = [] # []"
| "fields (c # cs) =
     (if c = CHR '','' then [] # fields cs else (c # hd (fields cs)) # tl (fields cs))"

definition comma_list :: "string \<Rightarrow> string list" where
  "comma_list str = filter (\<lambda>f. f \<noteq> []) (fields str)"

subsection \<open>Fixtures\<close>

text \<open>
  A process that has just started: errno 0, no file open, nothing allocated, 100
  allocations available, no sampling thread, and a standard error stream whose writes
  leave errno alone.
\<close>

definition w0 :: world where
  "w0 = \<lparr>w_errno = None, w_open = [], w_live = 0, w_budget = 100, w_thread = False,
         w_stderr = None\<rparr>"

text \<open>
  The state a successful init leaves for three rails on descriptors 3, 4 and 5 with the
  default interval, and a tick in which they read 500, 300 and 200 mW.
\<close>

definition three_rails :: energymon_jetson where
  "three_rails = \<lparr>polling_delay_us = 100000, poll_sensors = 1, total_uj = 0, count = 3, fds = [3, 4, 5]\<rparr>"

definition read_500_300_200 :: "int \<Rightarrow> pread_result" where
  "read_500_300_200 fd =
     (if fd = 3 then PreadBytes 500 else if fd = 4 then PreadBytes 300
      else if fd = 5 then PreadBytes 200 else PreadErr EIO)"

text \<open>The same tick with the read of descriptor 4 failing.\<close>

definition read_500_fail_200 :: "int \<Rightarrow> pread_result" where
  "read_500_fail_200 fd =
     (if fd = 3 then PreadBytes 500 else if fd = 5 then PreadBytes 200 else PreadErr EIO)"

text \<open>One rail on descriptor 3 that reads 99999999 mW in every tick.\<close>

definition one_rail :: energymon_jetson where
  "one_rail = \<lparr>polling_delay_us = 100000, poll_sensors = 1, total_uj = 0, count = 1, fds = [3]\<rparr>"

definition read_max :: "int \<Rightarrow> pread_result" where
  "read_max fd = PreadBytes 99999999"

subsection \<open>The walk as the specification describes it\<close>

text \<open>
  The rail a name file names is its first line. A name file is well formed when that
  line ends within the 64 bytes that are read and holds no NUL byte.
\<close>

definition wired_name :: "string \<Rightarrow> string" where
  "wired_name s = takeWhile (\<lambda>c. c \<noteq> NL) s"

definition name_line :: "string \<Rightarrow> bool" where
  "name_line s \<longleftrightarrow> NL \<in> set (take 64 s) \<and> NUL \<notin> set (wired_name s)"

text \<open>The position of a name in the list of target names: the first entry equal to it.\<close>

fun index_of :: "string \<Rightarrow> string list \<Rightarrow> nat option" where
  "index_of x [] = None"
| "index_of x (y # ys) = (if x = y then Some 0 else map_option Suc (index_of x ys))"

text \<open>
  The walk over the channels of a device in the specification's words, with no buffer,
  no descriptors and no world: \<open>seen\<close> lists the targets (positions in the name list)
  that a channel has matched so far. A channel whose name file does not exist is
  skipped; any other error on a name file fails the walk with that error; a channel
  that names a target already matched fails it with EEXIST; a matched channel whose
  power file cannot be opened fails it with that error. The result is the error, or the
  targets matched.
\<close>

fun walk_spec :: "string list \<Rightarrow> channel list \<Rightarrow> nat list \<Rightarrow> errno + nat list" where
  "walk_spec names [] seen = Inr seen"
| "walk_spec names (c # cs) seen =
     (case rail_name c of
        Unreadable e \<Rightarrow> if e = ENOENT then walk_spec names cs seen else Inl e
      | Content s \<Rightarrow>
          (case index_of (wired_name s) names of
             None \<Rightarrow> walk_spec names cs seen
           | Some i \<Rightarrow>
               if i \<in> set seen then Inl EEXIST
               else (case in_power c of
                       Some e \<Rightarrow> Inl e
                     | None \<Rightarrow> walk_spec names cs (i # seen))))"

definition device_spec :: "string list \<Rightarrow> device_dir \<Rightarrow> nat list \<Rightarrow> errno + nat list" where
  "device_spec names dev seen =
     walk_spec names (map (channel_files dev) [0..<INA3221_CHANNELS_MAX]) seen"

text \<open>The same over the directories: entries that do not match the naming pattern are skipped.\<close>

fun devices_spec :: "string list \<Rightarrow> (dirent \<times> device_dir) list \<Rightarrow> nat list \<Rightarrow> errno + nat list" where
  "devices_spec names [] seen = Inr seen"
| "devices_spec names ((entry, dev) # rest) seen =
     (if is_iio_device_dir entry then
        (case device_spec names dev seen of
           Inl e \<Rightarrow> Inl e
         | Inr seen' \<Rightarrow> devices_spec names rest seen')
      else devices_spec names rest seen)"

definition bus_spec :: "string list \<Rightarrow> bus_addr_dir \<Rightarrow> nat list \<Rightarrow> errno + nat list" where
  "bus_spec names bus seen =
     (case bus of Inl e \<Rightarrow> Inl e | Inr entries \<Rightarrow> devices_spec names entries seen)"

fun buses_spec :: "string list \<Rightarrow> (dirent \<times> bus_addr_dir) list \<Rightarrow> nat list \<Rightarrow> errno + nat list" where
  "buses_spec names [] seen = Inr seen"
| "buses_spec names ((entry, bus) # rest) seen =
     (if is_i2c_bus_addr_dir entry then
        (case bus_spec names bus seen of
           Inl e \<Rightarrow> Inl e
         | Inr seen' \<Rightarrow> buses_spec names rest seen')
      else buses_spec names rest seen)"

text \<open>The Locator run for a name list on the whole tree, starting with nothing matched.\<close>

definition locate_spec :: "string list \<Rightarrow> i2c_drivers_dir \<Rightarrow> errno + nat list" where
  "locate_spec names root =
     (case root of Inl e \<Rightarrow> Inl e | Inr entries \<Rightarrow> buses_spec names entries [])"

text \<open>
  The rails a tree exposes: the names in the readable name files of the channels of its
  device directories.
\<close>

definition channel_names :: "channel list \<Rightarrow> string list" where
  "channel_names cs =
     concat (map (\<lambda>c. case rail_name c of Unreadable e \<Rightarrow> [] | Content s \<Rightarrow> [wired_name s]) cs)"

definition device_rail_names :: "device_dir \<Rightarrow> string list" where
  "device_rail_names dev = channel_names (map (channel_files dev) [0..<INA3221_CHANNELS_MAX])"

definition bus_rail_names :: "bus_addr_dir \<Rightarrow> string list" where
  "bus_rail_names bus =
     (case bus of
        Inl e \<Rightarrow> []
      | Inr entries \<Rightarrow>
          concat (map (\<lambda>(entry, dev). if is_iio_device_dir entry then device_rail_names dev else [])
                    entries))"

definition tree_rail_names :: "i2c_drivers_dir \<Rightarrow> string list" where
  "tree_rail_names root =
     (case root of
        Inl e \<Rightarrow> []
      | Inr entries \<Rightarrow>
          concat (map (\<lambda>(entry, bus). if is_i2c_bus_addr_dir entry then bus_rail_names bus else [])
                    entries))"

text \<open>A tree is well formed when every readable name file in it is.\<close>

definition name_ok :: "channel \<Rightarrow> bool" where
  "name_ok c = (case rail_name c of Unreadable e \<Rightarrow> True | Content s \<Rightarrow> name_line s)"

definition device_ok :: "device_dir \<Rightarrow> bool" where
  "device_ok dev = list_all name_ok (map (channel_files dev) [0..<INA3221_CHANNELS_MAX])"

definition bus_ok :: "bus_addr_dir \<Rightarrow> bool" where
  "bus_ok bus = (case bus of Inl e \<Rightarrow> True | Inr entries \<Rightarrow> list_all (\<lambda>(entry, dev). device_ok dev) entries)"

definition tree_ok :: "i2c_drivers_dir \<Rightarrow> bool" where
  "tree_ok root = (case root of Inl e \<Rightarrow> True | Inr entries \<Rightarrow> list_all (\<lambda>(entry, bus). bus_ok bus) entries)"

text \<open>
  How the array \<^verbatim>\<open>fds\<close> records the targets matched: it has room for the \<open>n\<close>
  names, and an entry is positive when its target has been matched and 0 otherwise.
\<close>

definition fds_record :: "nat \<Rightarrow> int list \<Rightarrow> nat list \<Rightarrow> bool" where
  "fds_record n fdv seen \<longleftrightarrow>
     n \<le> length fdv \<and> list_all (\<lambda>i. (fdv ! i \<noteq> 0) = (i \<in> set seen) \<and> 0 \<le> fdv ! i) [0..<n]"

text \<open>
  A result of a walk function, started in the world \<open>w\<close>, agrees with the
  specification: it fails when the specification does, with the specification's error
  in errno when writes to the standard error stream leave errno alone, or it returns 0
  with the array recording the targets the specification reports.
\<close>

definition refines ::
  "nat \<Rightarrow> int list \<Rightarrow> world \<Rightarrow> int \<times> int list \<times> ulong \<times> world \<Rightarrow> errno + nat list \<Rightarrow> bool" where
  "refines n fdv w res spec =
     (case res of
        (ret, fdv', d', w') \<Rightarrow>
          w_stderr w' = w_stderr w \<and>
          (case spec of
             Inl e \<Rightarrow> ret = - 1 \<and> (w_stderr w = None \<longrightarrow> w_errno w' = Some e)
           | Inr seen' \<Rightarrow> ret = 0 \<and> length fdv' = length fdv \<and> fds_record n fdv' seen'))"

subsection \<open>Fixture trees\<close>

text \<open>
  A connected channel: the name file holds the name and a newline, the power file opens,
  the polling delay reads as \<open>ms\<close> milliseconds. A device whose walk starts with a
  buffer of NUL bytes.
\<close>

definition rail :: "string \<Rightarrow> int \<Rightarrow> channel" where
  "rail name ms =
     \<lparr>rail_name = Content (name @ [NL]), in_power = None, polling_delay = DelayText ms None\<rparr>"

definition device :: "channel list \<Rightarrow> device_dir" where
  "device cs = \<lparr>name_stack = [], channels = cs\<rparr>"

text \<open>The driver directory with one bus address and one IIO device under it.\<close>

definition one_device :: "device_dir \<Rightarrow> i2c_drivers_dir" where
  "one_device dev =
     Inr [(\<lparr>d_type = DT_LNK, d_name = ''1-0040''\<rparr>,
           Inr [(\<lparr>d_type = DT_DIR, d_name = ''iio:device0''\<rparr>, dev)])]"

text \<open>
  Environments: \<open>env_default dev\<close> sets neither variable; \<open>env_names str dev\<close> sets
  the rail-name list. \<^verbatim>\<open>pthread_create\<close> succeeds in both.
\<close>

definition env_default :: "device_dir \<Rightarrow> sysenv" where
  "env_default dev =
     \<lparr>rail_names_env = None, interval_env = None, sysfs = one_device dev, pthread_create_ret = None\<rparr>"

definition env_names :: "string \<Rightarrow> device_dir \<Rightarrow> sysenv" where
  "env_names str dev =
     \<lparr>rail_names_env = Some str, interval_env = None, sysfs = one_device dev,
      pthread_create_ret = None\<rparr>"

text \<open>
  Trees and environments for the examples of the life cycle: a board that exposes only
  the rail VDD_IN; one that exposes VDD_IN and VDD_MUX; one that exposes VDD_MUX and
  POM_5V_IN; the last with \<^verbatim>\<open>pthread_create\<close> failing, and with an interval
  override that is too large for an \<^verbatim>\<open>unsigned long\<close>; the second board with such
  an override; and a process on a machine where the driver directory does not exist.
\<close>

definition vdd_in_only :: device_dir where
  "vdd_in_only = device [rail ''VDD_IN'' 0]"

definition tx_board :: device_dir where
  "tx_board = device [rail ''VDD_IN'' 0, rail ''VDD_MUX'' 0]"

definition mux_and_pom :: device_dir where
  "mux_and_pom = device [rail ''VDD_MUX'' 0, rail ''POM_5V_IN'' 0]"

definition env_thread_fails :: sysenv where
  "env_thread_fails = (env_default mux_and_pom)\<lparr>pthread_create_ret := Some EAGAIN\<rparr>"

definition env_override_overflows :: sysenv where
  "env_override_overflows =
     (env_default mux_and_pom)\<lparr>interval_env := Some ''99999999999999999999999''\<rparr>"

definition env_bad_interval :: sysenv where
  "env_bad_interval = (env_default tx_board)\<lparr>interval_env := Some ''99999999999999999999999''\<rparr>"

definition env_no_driver :: sysenv where
  "env_no_driver = (env_names ''GPU'' (device []))\<lparr>sysfs := Inl ENOENT\<rparr>"

text \<open>
  A board with the rails GPU, CPU and SOC, and rail-name lists for it: all three rails,
  a list that names GPU twice, and a list that names a rail the board does not have; and
  a board where the name file of the second channel cannot be read.
\<close>

definition gpu_cpu_soc :: device_dir where
  "gpu_cpu_soc = device [rail ''GPU'' 0, rail ''CPU'' 0, rail ''SOC'' 0]"

definition env_three_names :: sysenv where
  "env_three_names = env_names ''GPU,CPU,SOC'' gpu_cpu_soc"

definition env_duplicate_name :: sysenv where
  "env_duplicate_name = env_names ''GPU,CPU,GPU'' gpu_cpu_soc"

definition env_missing_rail :: sysenv where
  "env_missing_rail = env_names ''GPU,VDD_IN'' gpu_cpu_soc"

definition env_name_unreadable :: sysenv where
  "env_name_unreadable =
     env_names ''GPU''
       (device [rail ''GPU'' 0,
                \<lparr>rail_name = Unreadable EIO, in_power = None, polling_delay = DelayText 0 None\<rparr>])"

text \<open>
  A board with the rails VDD_MUX, GPU and CPU, each on its own channel, and the rail
  names of the AGX Xavier profile.
\<close>

definition mux_gpu_cpu :: device_dir where
  "mux_gpu_cpu = device [rail ''VDD_MUX'' 0, rail ''GPU'' 0, rail ''CPU'' 0]"

definition agx_xavier_names :: "string list" where
  "agx_xavier_names = [''GPU'', ''CPU'', ''SOC'', ''CV'', ''VDDRQ'', ''SYS5V'']"

text \<open>
  A board whose second name file holds the three bytes GPU and no newline, searched for
  the rails VDD_MUX and GPU_MUX.
\<close>

definition mux_then_gpu :: device_dir where
  "mux_then_gpu =
     device [rail ''VDD_MUX'' 0,
             \<lparr>rail_name = Content ''GPU'', in_power = None, polling_delay = DelayText 0 None\<rparr>]"

definition env_stale_name :: sysenv where
  "env_stale_name = env_names ''VDD_MUX,GPU_MUX'' mux_then_gpu"

section \<open>The getters\<close>

text \<open>
  C10. On an initialized handle \<^verbatim>\<open>energymon_get_precision_jetson\<close> returns the
  polling interval divided by 1000, and 1 when that quotient is 0; so it never returns 0
  there, whatever the interval is. (\<^verbatim>\<open>energymon_get_interval_jetson\<close> returns the
  interval stored in the state.)
\<close>

theorem get_precision_initialized:
  "fst (energymon_get_interval_jetson (Some st) w) = polling_delay_us st
   \<and> fst (energymon_get_precision_jetson (Some st) w) =
       (if polling_delay_us st div 1000 = 0 then 1 else polling_delay_us st div 1000)
   \<and> fst (energymon_get_precision_jetson (Some st) w) \<noteq> 0"
  by (simp add: energymon_get_precision_jetson_def energymon_get_interval_jetson_def Let_def)

section \<open>The sampling loop\<close>

lemma read_sensors_ok:
  "\<forall>fd \<in> set l. \<exists>v. rd fd = PreadBytes v \<Longrightarrow>
   read_sensors rd l acc = (acc + sum_list (map (power_mw rd) l), None)"
  by (induction l arbitrary: acc) (auto simp: power_mw_def add.assoc)

lemma read_sensors_err:
  "fd \<in> set l \<Longrightarrow> rd fd = PreadErr e \<Longrightarrow> \<exists>s e'. read_sensors rd l acc = (s, Some e')"
proof (induction l arbitrary: acc)
  case Nil
  then show ?case by simp
next
  case (Cons a l)
  show ?case
  proof (cases "rd a")
    case (PreadBytes v)
    with Cons show ?thesis by auto
  next
    case PreadEof
    with Cons show ?thesis by auto
  next
    case (PreadErr e')
    then show ?thesis by simp
  qed
qed

lemma unat_sum_list: "unat (sum_list (ws :: ulong list)) = sum_list (map unat ws) mod 2 ^ 64"
  by (induction ws) (simp_all add: unat_word_ariths mod_simps)

lemma poll_tick_ok:
  assumes "\<forall>fd \<in> set (take (count st) (fds st)). \<exists>v. rd fd = PreadBytes v"
  shows "poll_tick st rd exec_us =
         st\<lparr>total_uj := total_uj st
              + (sum_list (map (power_mw rd) (take (count st) (fds st))) * exec_us) div 1000\<rparr>"
  using read_sensors_ok[OF assms, of 0] by (simp add: poll_tick_def)

lemma poll_tick_ok_nat:
  assumes ok: "\<forall>fd \<in> set (take (count st) (fds st)). \<exists>v. rd fd = PreadBytes v"
    and prod: "power_sum_mw st rd * unat exec_us < 2 ^ 64"
    and tot: "unat (total_uj st) + power_sum_mw st rd * unat exec_us div 1000 < 2 ^ 64"
  shows "unat (total_uj (poll_tick st rd exec_us)) =
         unat (total_uj st) + power_sum_mw st rd * unat exec_us div 1000"
proof -
  let ?l = "take (count st) (fds st)"
  let ?S = "power_sum_mw st rd"
  let ?s = "sum_list (map (power_mw rd) ?l)"
  have s: "unat ?s = ?S mod 2 ^ 64"
    by (simp add: unat_sum_list comp_def power_sum_mw_def)
  have "unat (?s * exec_us) = (?S mod 2 ^ 64 * unat exec_us) mod 2 ^ 64"
    by (simp add: unat_word_ariths s)
  also have "\<dots> = (?S * unat exec_us) mod 2 ^ 64"
    by (simp add: mod_simps)
  also have "\<dots> = ?S * unat exec_us"
    using prod by simp
  finally have p: "unat (?s * exec_us) = ?S * unat exec_us" .
  have d: "unat ((?s * exec_us) div 1000) = ?S * unat exec_us div 1000"
    by (simp add: unat_div p)
  have "unat (total_uj st + (?s * exec_us) div 1000) =
        (unat (total_uj st) + unat ((?s * exec_us) div 1000)) mod 2 ^ 64"
    by (simp only: unat_word_ariths) simp
  also have "\<dots> = (unat (total_uj st) + ?S * unat exec_us div 1000) mod 2 ^ 64"
    by (simp only: d)
  also have "\<dots> = unat (total_uj st) + ?S * unat exec_us div 1000"
    using tot by simp
  finally show ?thesis
    by (simp add: poll_tick_ok[OF ok])
qed

lemma poll_tick_err:
  assumes "fd \<in> set (take (count st) (fds st))" "rd fd = PreadErr e"
  shows "poll_tick st rd exec_us = st"
  using read_sensors_err[of fd "take (count st) (fds st)" rd e 0] assms
  by (auto simp: poll_tick_def)

lemma poll_loop_replicate:
  "poll_sensors st \<noteq> 0 \<Longrightarrow>
   \<forall>fd \<in> set (take (count st) (fds st)). \<exists>v. rd fd = PreadBytes v \<Longrightarrow>
   total_uj (poll_loop st (replicate n (Tick rd e))) =
     total_uj st + of_nat n * ((sum_list (map (power_mw rd) (take (count st) (fds st))) * e) div 1000)"
proof (induction n arbitrary: st)
  case 0
  then show ?case by simp
next
  case (Suc n)
  let ?st' = "poll_tick st rd e"
  note eq = poll_tick_ok[OF Suc(3), of e]
  have "poll_sensors ?st' \<noteq> 0" "count ?st' = count st" "fds ?st' = fds st"
    using Suc(2) by (simp_all add: eq)
  with Suc show ?case
    by (simp add: eq algebra_simps)
qed

text \<open>
  C2. In a tick in which every descriptor read returns bytes, the total grows by
  \<^verbatim>\<open>sum_mw * exec_us / 1000\<close>, computed as the C expression computes it (64-bit
  unsigned, truncating division); when the product and the new total stay below
  \<open>2^64\<close> this is the exact integer \<open>power_sum_mw * elapsed_us div 1000\<close>. With three
  rails reading 500, 300 and 200 mW and 100000 us elapsed per tick, the total after
  three ticks is 300000 uJ.
\<close>

theorem tick_accumulates:
  assumes "\<forall>fd \<in> set (take (count st) (fds st)). \<exists>v. rd fd = PreadBytes v"
  shows "total_uj (poll_tick st rd exec_us) =
           total_uj st + (sum_list (map (power_mw rd) (take (count st) (fds st))) * exec_us) div 1000
         \<and> (power_sum_mw st rd * unat exec_us < 2 ^ 64
              \<and> unat (total_uj st) + power_sum_mw st rd * unat exec_us div 1000 < 2 ^ 64
            \<longrightarrow> unat (total_uj (poll_tick st rd exec_us)) =
                  unat (total_uj st) + power_sum_mw st rd * unat exec_us div 1000)
         \<and> total_uj (jetson_poll_sensors three_rails 1
              [Tick read_500_300_200 100000, Tick read_500_300_200 100000,
               Tick read_500_300_200 100000]) = 300000"
proof (intro conjI impI)
  show "total_uj (poll_tick st rd exec_us) =
          total_uj st + (sum_list (map (power_mw rd) (take (count st) (fds st))) * exec_us) div 1000"
    by (simp add: poll_tick_ok[OF assms])
next
  assume "power_sum_mw st rd * unat exec_us < 2 ^ 64
            \<and> unat (total_uj st) + power_sum_mw st rd * unat exec_us div 1000 < 2 ^ 64"
  then show "unat (total_uj (poll_tick st rd exec_us)) =
               unat (total_uj st) + power_sum_mw st rd * unat exec_us div 1000"
    using poll_tick_ok_nat[OF assms] by blast
next
  show "total_uj (jetson_poll_sensors three_rails 1
          [Tick read_500_300_200 100000, Tick read_500_300_200 100000,
           Tick read_500_300_200 100000]) = 300000"
    by (simp add: jetson_poll_sensors_def three_rails_def read_500_300_200_def poll_tick_def)
qed

theorem tick_accumulates_witness:
  "list_all (\<lambda>fd. read_500_300_200 fd \<in> range PreadBytes) (take (count three_rails) (fds three_rails))
   \<and> total_uj (poll_tick three_rails read_500_300_200 100000) = 100000
   \<and> unat (total_uj (poll_tick three_rails read_500_300_200 100000)) = 1000 * 100000 div 1000"
proof -
  have h: "\<forall>fd \<in> set (take (count three_rails) (fds three_rails)). \<exists>v. read_500_300_200 fd = PreadBytes v"
    by (simp add: three_rails_def read_500_300_200_def)
  have s: "power_sum_mw three_rails read_500_300_200 = 1000"
    by (simp add: power_sum_mw_def three_rails_def read_500_300_200_def power_mw_def)
  have t: "total_uj three_rails = 0"
    by (simp add: three_rails_def)
  have m: "sum_list (map (power_mw read_500_300_200) (take (count three_rails) (fds three_rails))) = 1000"
    by (simp add: three_rails_def read_500_300_200_def power_mw_def)
  have l: "list_all (\<lambda>fd. read_500_300_200 fd \<in> range PreadBytes) (take (count three_rails) (fds three_rails))"
    by (simp add: three_rails_def read_500_300_200_def)
  from tick_accumulates[OF h, of 100000] l show ?thesis
    by (simp add: s t m)
qed

text \<open>
  C7. When the read of one of the rail descriptors fails in a tick, the tick leaves the
  state as it was: nothing is added to the total and the flag is not cleared. The loop
  goes on with the events that follow, and a following tick in which all reads succeed
  adds its energy as usual.
\<close>

theorem read_failure_skips_tick:
  assumes "fd \<in> set (take (count st) (fds st))" and "rd fd = PreadErr e"
  shows "poll_tick st rd exec_us = st
         \<and> (poll_sensors st \<noteq> 0 \<longrightarrow> poll_loop st (Tick rd exec_us # evs) = poll_loop st evs)
         \<and> (poll_sensors st \<noteq> 0
              \<and> (\<forall>fd \<in> set (take (count st) (fds st)). \<exists>v. rd' fd = PreadBytes v)
            \<longrightarrow> total_uj (poll_loop st [Tick rd exec_us, Tick rd' exec_us']) =
                  total_uj st
                    + (sum_list (map (power_mw rd') (take (count st) (fds st))) * exec_us') div 1000)"
proof -
  have skip: "poll_tick st rd exec_us = st"
    using assms by (rule poll_tick_err[where fd = fd and e = e])
  show ?thesis
  proof (intro conjI impI)
    show "poll_tick st rd exec_us = st" by (rule skip)
  next
    assume "poll_sensors st \<noteq> 0"
    then show "poll_loop st (Tick rd exec_us # evs) = poll_loop st evs"
      by (simp add: skip)
  next
    assume a: "poll_sensors st \<noteq> 0
                 \<and> (\<forall>fd \<in> set (take (count st) (fds st)). \<exists>v. rd' fd = PreadBytes v)"
    then have ok: "\<forall>fd \<in> set (take (count st) (fds st)). \<exists>v. rd' fd = PreadBytes v"
      by blast
    from a show "total_uj (poll_loop st [Tick rd exec_us, Tick rd' exec_us']) =
                   total_uj st
                     + (sum_list (map (power_mw rd') (take (count st) (fds st))) * exec_us') div 1000"
      by (simp add: skip poll_tick_ok[OF ok])
  qed
qed

theorem read_failure_skips_tick_witness:
  "4 \<in> set (take (count three_rails) (fds three_rails)) \<and> read_500_fail_200 4 = PreadErr EIO
   \<and> poll_tick three_rails read_500_fail_200 100000 = three_rails
   \<and> total_uj (poll_loop three_rails
        [Tick read_500_fail_200 100000, Tick read_500_300_200 100000]) = 100000"
proof -
  have a: "4 \<in> set (take (count three_rails) (fds three_rails))"
    by (simp add: three_rails_def)
  have b: "read_500_fail_200 4 = PreadErr EIO"
    by (simp add: read_500_fail_200_def)
  have h: "\<forall>fd \<in> set (take (count three_rails) (fds three_rails)). \<exists>v. read_500_300_200 fd = PreadBytes v"
    by (simp add: three_rails_def read_500_300_200_def)
  have p: "poll_sensors three_rails \<noteq> 0" "total_uj three_rails = 0"
    by (simp_all add: three_rails_def)
  have m: "sum_list (map (power_mw read_500_300_200) (take (count three_rails) (fds three_rails))) = 1000"
    by (simp add: three_rails_def read_500_300_200_def power_mw_def)
  note T = read_failure_skips_tick[where fd = 4 and st = three_rails and rd = read_500_fail_200
      and e = EIO and exec_us = 100000 and evs = "[]" and rd' = read_500_300_200
      and exec_us' = 100000, OF a b]
  from T have c1: "poll_tick three_rails read_500_fail_200 100000 = three_rails"
    by blast
  from T p(1) h
  have "total_uj (poll_loop three_rails [Tick read_500_fail_200 100000, Tick read_500_300_200 100000]) =
          total_uj three_rails
            + (sum_list (map (power_mw read_500_300_200) (take (count three_rails) (fds three_rails)))
                * 100000) div 1000"
    by blast
  then have c2: "total_uj (poll_loop three_rails [Tick read_500_fail_200 100000, Tick read_500_300_200 100000]) = 100000"
    unfolding m p(2) by simp
  from a b c1 c2 show ?thesis
    by blast
qed

lemma read_sensors_no_fail:
  "\<not> read_fails rd l \<Longrightarrow> read_sensors rd l acc = (acc + sum_list (map (power_mw rd) l), None)"
  by (induction l arbitrary: acc)
     (auto simp: read_fails_def power_mw_def add.assoc split: pread_result.splits)

lemma read_sensors_fail:
  "read_fails rd l \<Longrightarrow> \<exists>s e. read_sensors rd l acc = (s, Some e)"
  by (induction l arbitrary: acc) (auto simp: read_fails_def split: pread_result.splits)

lemma poll_tick_total:
  "total_uj (poll_tick st rd e) =
     total_uj st + (if read_fails rd (take (count st) (fds st)) then 0
                    else (sum_list (map (power_mw rd) (take (count st) (fds st))) * e) div 1000)"
proof (cases "read_fails rd (take (count st) (fds st))")
  case True
  from read_sensors_fail[OF True, of 0] show ?thesis
    using True by (auto simp: poll_tick_def)
next
  case False
  from read_sensors_no_fail[OF False, of 0] show ?thesis
    using False by (simp add: poll_tick_def)
qed

lemma poll_tick_frame:
  "count (poll_tick st rd e) = count st" "fds (poll_tick st rd e) = fds st"
  "poll_sensors (poll_tick st rd e) = poll_sensors st"
  by (simp_all add: poll_tick_def split: prod.splits option.splits)

lemma tick_word_le:
  "unat (if read_fails rd (take (count st) (fds st)) then 0
         else (sum_list (map (power_mw rd) (take (count st) (fds st))) * e) div 1000)
   \<le> tick_energy st rd e"
proof (cases "read_fails rd (take (count st) (fds st))")
  case True
  then show ?thesis by (simp add: tick_energy_def)
next
  case False
  let ?S = "power_sum_mw st rd"
  let ?s = "sum_list (map (power_mw rd) (take (count st) (fds st)))"
  have s: "unat ?s = ?S mod 2 ^ 64"
    by (simp add: unat_sum_list comp_def power_sum_mw_def)
  have "unat (?s * e) = (?S mod 2 ^ 64 * unat e) mod 2 ^ 64"
    by (simp add: unat_word_ariths s)
  also have "\<dots> = (?S * unat e) mod 2 ^ 64"
    by (simp add: mod_simps)
  also have "\<dots> \<le> ?S * unat e"
    by simp
  finally have "unat (?s * e) div 1000 \<le> ?S * unat e div 1000"
    by (rule div_le_mono)
  with False show ?thesis
    by (simp add: tick_energy_def unat_div)
qed

lemma tick_word_eq:
  assumes "power_sum_mw st rd * unat e < 2 ^ 64"
  shows "unat (if read_fails rd (take (count st) (fds st)) then 0
               else (sum_list (map (power_mw rd) (take (count st) (fds st))) * e) div 1000)
         = tick_energy st rd e"
proof (cases "read_fails rd (take (count st) (fds st))")
  case True
  then show ?thesis by (simp add: tick_energy_def)
next
  case False
  let ?S = "power_sum_mw st rd"
  let ?s = "sum_list (map (power_mw rd) (take (count st) (fds st)))"
  have s: "unat ?s = ?S mod 2 ^ 64"
    by (simp add: unat_sum_list comp_def power_sum_mw_def)
  have "unat (?s * e) = (?S mod 2 ^ 64 * unat e) mod 2 ^ 64"
    by (simp add: unat_word_ariths s)
  also have "\<dots> = (?S * unat e) mod 2 ^ 64"
    by (simp add: mod_simps)
  also have "\<dots> = ?S * unat e"
    using assms by simp
  finally have "unat (?s * e) div 1000 = ?S * unat e div 1000"
    by simp
  with False show ?thesis
    by (simp add: tick_energy_def unat_div)
qed

lemma energy_added_frame:
  "count st' = count st \<Longrightarrow> fds st' = fds st \<Longrightarrow> poll_sensors st' = poll_sensors st \<Longrightarrow>
   energy_added st' evs = energy_added st evs"
  by (induction st evs rule: energy_added.induct)
     (simp_all add: tick_energy_def power_sum_mw_def)

lemma products_fit_frame:
  "count st' = count st \<Longrightarrow> fds st' = fds st \<Longrightarrow> products_fit st' evs = products_fit st evs"
  by (induction st evs rule: products_fit.induct) (simp_all add: power_sum_mw_def)

lemma poll_loop_stopped: "poll_sensors st = 0 \<Longrightarrow> total_uj (poll_loop st evs) = total_uj st"
proof (induction evs arbitrary: st)
  case Nil
  then show ?case by simp
next
  case (Cons ev evs)
  show ?case
  proof (cases ev)
    case (Tick rd e)
    with Cons.prems show ?thesis by simp
  next
    case Stop
    have "total_uj (poll_loop (st\<lparr>poll_sensors := 0\<rparr>) evs) = total_uj (st\<lparr>poll_sensors := 0\<rparr>)"
      by (rule Cons.IH) simp
    with Stop show ?thesis by simp
  qed
qed

lemma poll_loop_total:
  "unat (total_uj st) + energy_added st evs < 2 ^ 64 \<Longrightarrow>
   unat (total_uj st) \<le> unat (total_uj (poll_loop st evs))
   \<and> unat (total_uj (poll_loop st evs)) \<le> unat (total_uj st) + energy_added st evs
   \<and> (products_fit st evs \<longrightarrow>
        unat (total_uj (poll_loop st evs)) = unat (total_uj st) + energy_added st evs)"
proof (induction evs arbitrary: st)
  case Nil
  then show ?case by simp
next
  case (Cons ev evs)
  show ?case
  proof (cases ev)
    case Stop
    have "total_uj (poll_loop (st\<lparr>poll_sensors := 0\<rparr>) evs) = total_uj st"
      using poll_loop_stopped[of "st\<lparr>poll_sensors := 0\<rparr>" evs] by simp
    with Stop show ?thesis by simp
  next
    case (Tick rd e)
    show ?thesis
    proof (cases "poll_sensors st = 0")
      case True
      with Tick show ?thesis by simp
    next
      case False
      let ?st' = "poll_tick st rd e"
      let ?inc = "if read_fails rd (take (count st) (fds st)) then 0
                  else (sum_list (map (power_mw rd) (take (count st) (fds st))) * e) div 1000"
      have ea: "energy_added ?st' evs = energy_added st evs"
        by (rule energy_added_frame) (simp_all add: poll_tick_frame)
      have pf: "products_fit ?st' evs = products_fit st evs"
        by (rule products_fit_frame) (simp_all add: poll_tick_frame)
      from Cons.prems Tick False
      have b: "unat (total_uj st) + tick_energy st rd e + energy_added st evs < 2 ^ 64"
        by simp
      have le: "unat ?inc \<le> tick_energy st rd e"
        by (rule tick_word_le)
      with b have nw: "unat (total_uj st) + unat ?inc < 2 ^ 64"
        by linarith
      have "unat (total_uj ?st') = (unat (total_uj st) + unat ?inc) mod 2 ^ 64"
        by (simp only: poll_tick_total unat_word_ariths) simp
      with nw have t: "unat (total_uj ?st') = unat (total_uj st) + unat ?inc"
        by simp
      with b le have "unat (total_uj ?st') + energy_added ?st' evs < 2 ^ 64"
        by (simp add: ea)
      from Cons.IH[OF this]
      have ih: "unat (total_uj ?st') \<le> unat (total_uj (poll_loop ?st' evs))"
        "unat (total_uj (poll_loop ?st' evs)) \<le> unat (total_uj ?st') + energy_added st evs"
        "products_fit st evs \<longrightarrow>
           unat (total_uj (poll_loop ?st' evs)) = unat (total_uj ?st') + energy_added st evs"
        by (simp_all add: ea pf)
      have l: "poll_loop st (ev # evs) = poll_loop ?st' evs"
        using Tick False by simp
      have e: "energy_added st (ev # evs) = tick_energy st rd e + energy_added st evs"
        using Tick False by simp
      have c1: "unat (total_uj st) \<le> unat (total_uj (poll_loop st (ev # evs)))"
        using ih(1) t by (simp add: l)
      have c2: "unat (total_uj (poll_loop st (ev # evs))) \<le> unat (total_uj st) + energy_added st (ev # evs)"
        using ih(2) t le by (simp add: l e)
      have c3: "products_fit st (ev # evs) \<longrightarrow>
                  unat (total_uj (poll_loop st (ev # evs))) = unat (total_uj st) + energy_added st (ev # evs)"
      proof
        assume p: "products_fit st (ev # evs)"
        with Tick have p1: "power_sum_mw st rd * unat e < 2 ^ 64" and p2: "products_fit st evs"
          by simp_all
        from tick_word_eq[OF p1] have "unat ?inc = tick_energy st rd e" .
        with ih(3) p2 t show "unat (total_uj (poll_loop st (ev # evs))) = unat (total_uj st) + energy_added st (ev # evs)"
          by (simp add: l e)
      qed
      from c1 c2 c3 show ?thesis by blast
    qed
  qed
qed

text \<open>
  C6, as the code has it. \<^verbatim>\<open>total_uj\<close> is a \<^verbatim>\<open>uint64_t\<close> and the addition wraps
  around. The energy of the ticks between two calls of
  \<^verbatim>\<open>energymon_read_total_jetson\<close> is computed from the readings and the elapsed
  times in unbounded integers. As long as the total at the first call plus that energy
  stays below \<open>2^64\<close>, the second call returns at least what the first returned and at
  most the first total plus that energy; and exactly that sum when in every tick the
  product of the power sum and the elapsed time fits in 64 bits.
\<close>

theorem total_nondecreasing_without_wrap:
  assumes "unat (total_uj st) + energy_added st evs < 2 ^ 64"
  shows "fst (energymon_read_total_jetson (Some st) w)
           \<le> fst (energymon_read_total_jetson (Some (poll_loop st evs)) w')
         \<and> unat (fst (energymon_read_total_jetson (Some (poll_loop st evs)) w'))
             \<le> unat (fst (energymon_read_total_jetson (Some st) w)) + energy_added st evs
         \<and> (products_fit st evs \<longrightarrow>
              unat (fst (energymon_read_total_jetson (Some (poll_loop st evs)) w'))
                = unat (fst (energymon_read_total_jetson (Some st) w)) + energy_added st evs)"
  using poll_loop_total[OF assms]
  by (simp add: energymon_read_total_jetson_def word_le_nat_alt)

theorem total_nondecreasing_without_wrap_witness:
  "unat (total_uj three_rails) + energy_added three_rails [Tick read_500_300_200 100000] < 2 ^ 64
   \<and> products_fit three_rails [Tick read_500_300_200 100000]
   \<and> energy_added three_rails [Tick read_500_300_200 100000] = 100000
   \<and> fst (energymon_read_total_jetson (Some three_rails) w0) = 0
   \<and> unat (fst (energymon_read_total_jetson
        (Some (poll_loop three_rails [Tick read_500_300_200 100000])) w0)) = 100000"
proof -
  have s: "power_sum_mw three_rails read_500_300_200 = 1000"
    by (simp add: power_sum_mw_def three_rails_def read_500_300_200_def power_mw_def)
  have f: "\<not> read_fails read_500_300_200 (take (count three_rails) (fds three_rails))"
    by (simp add: read_fails_def three_rails_def read_500_300_200_def)
  have p: "poll_sensors three_rails \<noteq> 0" "total_uj three_rails = 0"
    by (simp_all add: three_rails_def)
  have e: "energy_added three_rails [Tick read_500_300_200 100000] = 100000"
    using p(1) f by (simp add: tick_energy_def s)
  have pf: "products_fit three_rails [Tick read_500_300_200 100000]"
    by (simp add: s)
  have h: "unat (total_uj three_rails) + energy_added three_rails [Tick read_500_300_200 100000] < 2 ^ 64"
    unfolding e p(2) by simp
  have r1: "fst (energymon_read_total_jetson (Some three_rails) w0) = 0"
    by (simp add: energymon_read_total_jetson_def p(2))
  from total_nondecreasing_without_wrap[OF h, of w0 w0] pf
  have "unat (fst (energymon_read_total_jetson
          (Some (poll_loop three_rails [Tick read_500_300_200 100000])) w0))
        = unat (fst (energymon_read_total_jetson (Some three_rails) w0))
          + energy_added three_rails [Tick read_500_300_200 100000]"
    by blast
  then have r2: "unat (fst (energymon_read_total_jetson
          (Some (poll_loop three_rails [Tick read_500_300_200 100000])) w0)) = 100000"
    unfolding e r1 by simp
  from h pf e r1 r2 show ?thesis
    by blast
qed

text \<open>
  C6 as stated fails at the wrap-around: one rail reads 99999999 mW and 184467440000 us
  pass between ticks, so every tick adds 18446743815532560 uJ. Started from 0, the total
  read after 1000 ticks is 18446743815532560000, and the total read after the next tick
  is 18446485638540944, which is smaller.
\<close>

theorem total_wraps_counterexample:
  "fst (energymon_read_total_jetson
          (Some (poll_loop one_rail (replicate 1001 (Tick read_max 184467440000)))) w0)
   < fst (energymon_read_total_jetson
          (Some (poll_loop one_rail (replicate 1000 (Tick read_max 184467440000)))) w0)"
proof -
  have a: "poll_sensors one_rail \<noteq> 0"
    by (simp add: one_rail_def)
  have b: "\<forall>fd \<in> set (take (count one_rail) (fds one_rail)). \<exists>v. read_max fd = PreadBytes v"
    by (simp add: read_max_def)
  have c: "total_uj (poll_loop one_rail (replicate 1001 (Tick read_max 184467440000)))
             = 18446485638540944"
    by (simp add: poll_loop_replicate[OF a b]) (simp add: one_rail_def power_mw_def read_max_def)
  have d: "total_uj (poll_loop one_rail (replicate 1000 (Tick read_max 184467440000)))
             = 18446743815532560000"
    by (simp add: poll_loop_replicate[OF a b]) (simp add: one_rail_def power_mw_def read_max_def)
  show ?thesis
    by (simp add: energymon_read_total_jetson_def c d)
qed

section \<open>The polling interval\<close>

lemma word_lt_min_default: "(d :: ulong) < 1000 \<Longrightarrow> d < 100000"
  using less_trans[of d 1000 100000] by simp

lemma get_polling_delay_us_cases:
  "strtoul t = (v, Some e) \<Longrightarrow> fst (get_polling_delay_us (Some t) d w) = 0"
  "strtoul t = (v, None) \<Longrightarrow> fst (get_polling_delay_us (Some t) d w) = (if v < 1000 then 1000 else v)"
  "fst (get_polling_delay_us None d w) = (if d < 100000 then 100000 else d)"
  by (auto simp add: get_polling_delay_us_def INA3221_DEFAULT_POLLING_DELAY_US_def
        INA3221_MIN_POLLING_DELAY_US_def Let_def dest: word_lt_min_default)

lemma get_polling_delay_us_zero:
  "fst (get_polling_delay_us ev d w) = 0 \<longleftrightarrow> (\<exists>t v e. ev = Some t \<and> strtoul t = (v, Some e))"
proof (cases ev)
  case None
  have "\<not> d < 100000 \<Longrightarrow> d \<noteq> 0"
    by auto
  with None show ?thesis
    by (simp add: get_polling_delay_us_cases)
next
  case (Some t)
  obtain v r where p: "strtoul t = (v, r)" by (cases "strtoul t") auto
  have "\<not> v < 1000 \<Longrightarrow> v \<noteq> 0"
    by auto
  then show ?thesis
    using p Some by (cases r) (simp_all add: get_polling_delay_us_cases)
qed

lemma get_polling_delay_us_min:
  "fst (get_polling_delay_us ev d w) \<noteq> 0 \<Longrightarrow> 1000 \<le> fst (get_polling_delay_us ev d w)"
proof (cases ev)
  case None
  assume "fst (get_polling_delay_us ev d w) \<noteq> 0"
  have "(1000 :: ulong) \<le> 100000" by simp
  moreover have "\<not> d < 100000 \<Longrightarrow> 1000 \<le> d"
    using order_trans[of "1000 :: ulong" 100000 d] by (simp add: not_less)
  ultimately show ?thesis
    using None by (simp add: get_polling_delay_us_cases)
next
  case (Some t)
  assume nz: "fst (get_polling_delay_us ev d w) \<noteq> 0"
  obtain v r where p: "strtoul t = (v, r)" by (cases "strtoul t") auto
  show ?thesis
  proof (cases r)
    case None
    with p Some show ?thesis
      by (simp add: get_polling_delay_us_cases not_less)
  next
    case (Some e)
    with nz p \<open>ev = Some t\<close> show ?thesis
      by (simp add: get_polling_delay_us_cases)
  qed
qed












text \<open>
  An override that is not a number is outside of what is stated above: for the text
  \<^verbatim>\<open>abc\<close>, \<^verbatim>\<open>strtoul\<close> converts nothing, returns 0 and leaves errno as it is,
  and the resolver answers with the minimum of 1000 us.
\<close>

lemma override_without_digits:
  "strtoul ''abc'' = (0, None) \<and> fst (get_polling_delay_us (Some ''abc'') 0 w0) = 1000"
  by code_simp

section \<open>The walk refines its specification\<close>

lemma stderr_write_fields [simp]:
  "w_stderr (stderr_write w) = w_stderr w"
  "w_open (stderr_write w) = w_open w"
  "w_live (stderr_write w) = w_live w"
  "w_budget (stderr_write w) = w_budget w"
  "w_thread (stderr_write w) = w_thread w"
  "(stderr_write w)\<lparr>w_errno := e\<rparr> = w\<lparr>w_errno := e\<rparr>"
  by (simp_all add: stderr_write_def split: option.splits)

lemma stderr_write_silent: "w_stderr w = None \<Longrightarrow> stderr_write w = w"
  by (simp add: stderr_write_def)

lemma fds_recordD:
  "fds_record n fdv seen \<Longrightarrow> i < n \<Longrightarrow> (fdv ! i \<noteq> 0) = (i \<in> set seen) \<and> 0 \<le> fdv ! i"
  by (simp add: fds_record_def list_all_iff)

lemma fresh_fd_ge: "3 \<le> fresh_fd opn"
proof (cases "filter (\<lambda>fd. fd \<notin> set opn) (map (\<lambda>n. int n + 3) [0..<Suc (length opn)])")
  case Nil
  then show ?thesis by (simp add: fresh_fd_def)
next
  case (Cons fd rest)
  then have "fd \<in> set (map (\<lambda>n. int n + 3) [0..<Suc (length opn)])"
    by (metis filter_is_subset list.set_intros(1) subsetD)
  then obtain n where "fd = int n + 3"
    by (auto simp del: upt_Suc)
  then have "3 \<le> fd" by simp
  with Cons show ?thesis by (simp add: fresh_fd_def)
qed

lemma fds_record_update:
  assumes "fds_record n fdv seen" "i < n" "0 < fd"
  shows "fds_record n (fdv[i := fd]) (i # seen)"
  using assms by (auto simp: fds_record_def list_all_iff nth_list_update)

lemma fds_record_zeros: "fds_record n (replicate n 0) []"
  by (simp add: fds_record_def list_all_iff)

lemma index_of_Some: "index_of x ns = Some i \<Longrightarrow> i < length ns \<and> ns ! i = x"
  by (induction ns arbitrary: i) (auto split: if_splits)

lemma index_of_mem: "x \<in> set ns \<Longrightarrow> \<exists>i. index_of x ns = Some i"
  by (induction ns) auto

lemma takeWhile_stop_less: "x \<in> set xs \<Longrightarrow> \<not> P x \<Longrightarrow> length (takeWhile P xs) < length xs"
  by (induction xs) auto

lemma takeWhile_take_stop:
  assumes "x \<in> set (take n s)" "\<not> P x"
  shows "takeWhile P (take n s @ r) = takeWhile P s"
proof -
  have "takeWhile P (take n s @ r) = takeWhile P (take n s)"
    using assms by (rule takeWhile_append1)
  also have "\<dots> = takeWhile P (take n s @ drop n s)"
    using assms by (rule takeWhile_append1[symmetric])
  finally show ?thesis by simp
qed

lemma takeWhile_conj:
  "\<forall>x \<in> set (takeWhile P s). Q x \<Longrightarrow> takeWhile (\<lambda>c. P c \<and> Q c) s = takeWhile P s"
  by (induction s) auto

lemma c_str_update:
  assumes "length (takeWhile (\<lambda>c. c \<noteq> NL \<and> c \<noteq> NUL) str) < length str"
  shows "c_str (str[length (takeWhile (\<lambda>c. c \<noteq> NL \<and> c \<noteq> NUL) str) := NUL])
           = takeWhile (\<lambda>c. c \<noteq> NL \<and> c \<noteq> NUL) str"
proof -
  let ?P = "\<lambda>c. c \<noteq> NL \<and> c \<noteq> NUL"
  let ?tw = "takeWhile ?P str"
  have id: "str = ?tw @ dropWhile ?P str"
    by simp
  with assms have "dropWhile ?P str \<noteq> []"
    by (metis append_Nil2 less_irrefl)
  then obtain y ys where dw: "dropWhile ?P str = y # ys"
    by (cases "dropWhile ?P str") auto
  have "str[length ?tw := NUL] = (?tw @ y # ys)[length ?tw := NUL]"
    using id dw by simp
  also have "\<dots> = ?tw @ NUL # ys"
    by (rule list_update_length)
  finally have u: "str[length ?tw := NUL] = ?tw @ NUL # ys" .
  have "\<And>x. x \<in> set ?tw \<Longrightarrow> x \<noteq> NUL"
    by (auto dest: set_takeWhileD)
  then have "takeWhile (\<lambda>c. c \<noteq> NUL) (?tw @ NUL # ys) = ?tw @ takeWhile (\<lambda>c. c \<noteq> NUL) (NUL # ys)"
    by (rule takeWhile_append2)
  then show ?thesis
    by (simp add: c_str_def u)
qed

lemma read_name_line:
  assumes "name_line s" "length buf = 64"
  shows "\<exists>buf'. read_string (Content s) buf 64 w = (0, buf', w) \<and> length buf' = 64
           \<and> c_str buf' = wired_name s \<and> length (wired_name s) < 64"
proof -
  let ?P = "\<lambda>c. c \<noteq> NL \<and> c \<noteq> NUL"
  let ?got = "take 64 s"
  let ?str = "?got @ drop (length ?got) buf"
  from assms(1) have nl: "NL \<in> set ?got" and nn: "NUL \<notin> set (wired_name s)"
    by (simp_all add: name_line_def)
  have np: "\<not> ?P NL" by simp
  from nl have pos: "0 < length ?got"
    by (cases ?got) auto
  have len: "length ?str = 64"
    using assms(2) by simp
  have "takeWhile ?P ?str = takeWhile ?P s"
    using nl np by (rule takeWhile_take_stop)
  also have "\<dots> = wired_name s"
    unfolding wired_name_def using nn by (intro takeWhile_conj) (auto simp: wired_name_def)
  finally have tw: "takeWhile ?P ?str = wired_name s" .
  have "NL \<in> set ?str" using nl by simp
  from takeWhile_stop_less[where x = NL and xs = ?str and P = ?P, OF this np]
  have lt: "length (takeWhile ?P ?str) < length ?str" .
  with tw len have wl: "length (wired_name s) < 64" by simp
  have cs: "c_str (?str[length (takeWhile ?P ?str) := NUL]) = wired_name s"
    using c_str_update[OF lt] tw by simp
  have "read_string (Content s) buf 64 w = (0, ?str[length (takeWhile ?P ?str) := NUL], w)"
    using pos lt len by (simp add: read_string_def Let_def strcspn_nl_def del: length_take)
  with cs wl len show ?thesis
    by simp
qed

lemma strncmp_wired:
  assumes "length a < 64" "NUL \<notin> set n" "c_str buf = a"
  shows "strncmp_eq buf n 64 \<longleftrightarrow> a = n"
proof -
  from assms(2) have n: "c_str n = n"
    by (auto simp: c_str_def takeWhile_eq_all_conv)
  have "take 64 n = a \<longleftrightarrow> n = a"
  proof
    assume t: "take 64 n = a"
    with assms(1) have "length (take 64 n) < 64" by simp
    then have "length n < 64" by simp
    with t show "n = a" by simp
  next
    assume "n = a"
    with assms(1) show "take 64 n = a" by simp
  qed
  with assms(1,3) n show ?thesis
    by (auto simp: strncmp_eq_def)
qed

lemma find_rail_index_of:
  assumes "length a < 64" "c_str buf = a" "\<forall>n \<in> set ns. NUL \<notin> set n"
  shows "find_rail buf ns k = map_option (\<lambda>i. i + k) (index_of a ns)"
  using assms(3)
proof (induction ns arbitrary: k)
  case Nil
  then show ?case by simp
next
  case (Cons n ns)
  from Cons.prems have "NUL \<notin> set n" by simp
  from strncmp_wired[OF assms(1) this assms(2)] have s: "strncmp_eq buf n 64 \<longleftrightarrow> a = n" .
  from Cons have ih: "find_rail buf ns (Suc k) = map_option (\<lambda>i. i + Suc k) (index_of a ns)"
    by simp
  show ?case
    by (cases "index_of a ns") (simp_all add: s ih)
qed

lemma stack_buffer_length: "length (stack_buffer g) = 64"
  by (simp add: stack_buffer_def)

lemma read_polling_delay_stderr:
  "ina3221x_try_read_polling_delay_us c w = (pd, w') \<Longrightarrow> w_stderr w' = w_stderr w"
  by (auto simp: ina3221x_try_read_polling_delay_us_def read_long_def Let_def
           split: delay_file.splits prod.splits)

lemma refines_cong:
  "refines n a wa res spec \<Longrightarrow> length a = length b \<Longrightarrow> w_stderr wa = w_stderr wb \<Longrightarrow>
   refines n b wb res spec"
  by (auto simp: refines_def split: prod.splits sum.splits)

lemma walk_channels_refines:
  assumes "fds_record (length names) fdv seen" and "list_all name_ok cs"
    and "length buf = 64" and nn: "\<forall>n \<in> set names. NUL \<notin> set n"
  shows "refines (length names) fdv w (walk_channels names (length names) cs buf fdv d w)
           (walk_spec names cs seen)"
  using assms(1-3)
proof (induction cs arbitrary: buf fdv d w seen)
  case Nil
  then show ?case by (simp add: refines_def)
next
  case (Cons c cs)
  from Cons.prems(2) have ok: "name_ok c" and oks: "list_all name_ok cs"
    by simp_all
  let ?w1 = "w\<lparr>w_errno := None\<rparr>"
  show ?case
  proof (cases "rail_name c")
    case (Unreadable e)
    have rd: "ina3221x_try_read_rail_name c buf 64 ?w1 = (- 1, buf, w\<lparr>w_errno := Some e\<rparr>)"
      using Unreadable by (simp add: ina3221x_try_read_rail_name_def read_string_def)
    show ?thesis
    proof (cases "e = ENOENT")
      case True
      have e1: "walk_channels names (length names) (c # cs) buf fdv d w =
                walk_channels names (length names) cs buf fdv d (w\<lparr>w_errno := Some e\<rparr>)"
        using rd True by simp
      have e2: "walk_spec names (c # cs) seen = walk_spec names cs seen"
        using Unreadable True by simp
      have "refines (length names) fdv w
              (walk_channels names (length names) cs buf fdv d (w\<lparr>w_errno := Some e\<rparr>))
              (walk_spec names cs seen)"
        by (rule refines_cong[OF Cons.IH[OF Cons.prems(1) oks Cons.prems(3)]]) simp_all
      then show ?thesis
        by (simp only: e1 e2)
    next
      case False
      with rd Unreadable show ?thesis
        by (simp add: refines_def)
    qed
  next
    case (Content s)
    with ok have "name_line s" by (simp add: name_ok_def)
    from read_name_line[OF this Cons.prems(3), of ?w1] obtain buf' where
      rs: "read_string (Content s) buf 64 ?w1 = (0, buf', ?w1)" and bl: "length buf' = 64"
      and cb: "c_str buf' = wired_name s" and wl: "length (wired_name s) < 64"
      by blast
    have rd: "ina3221x_try_read_rail_name c buf 64 ?w1 = (0, buf', ?w1)"
      using Content rs by (simp add: ina3221x_try_read_rail_name_def)
    have fr: "find_rail buf' (take (length names) names) 0 = index_of (wired_name s) names"
      using find_rail_index_of[OF wl cb nn, of 0] by (simp add: option.map_ident)
    show ?thesis
    proof (cases "index_of (wired_name s) names")
      case None
      have e1: "walk_channels names (length names) (c # cs) buf fdv d w =
                walk_channels names (length names) cs buf' fdv d ?w1"
        using rd fr None by simp
      have e2: "walk_spec names (c # cs) seen = walk_spec names cs seen"
        using Content None by simp
      have "refines (length names) fdv w
              (walk_channels names (length names) cs buf' fdv d ?w1) (walk_spec names cs seen)"
        by (rule refines_cong[OF Cons.IH[OF Cons.prems(1) oks bl]]) simp_all
      then show ?thesis
        by (simp only: e1 e2)
    next
      case (Some i)
      then have i: "i < length names" using index_of_Some by blast
      show ?thesis
      proof (cases "i \<in> set seen")
        case True
        with i fds_recordD[OF Cons.prems(1)] have "fdv ! i \<noteq> 0" by blast
        with True Some Content rd fr show ?thesis
          by (simp add: refines_def)
      next
        case False
        with i fds_recordD[OF Cons.prems(1)] have z: "fdv ! i = 0" by blast
        show ?thesis
        proof (cases "in_power c")
          case (Some e)
          have op: "ina3221x_open_power_file c ?w1 = (- 1, stderr_write (w\<lparr>w_errno := Some e\<rparr>))"
            using Some by (simp add: ina3221x_open_power_file_def)
          have e1: "walk_channels names (length names) (c # cs) buf fdv d w =
                    (- 1, fdv[i := - 1], d, stderr_write (w\<lparr>w_errno := Some e\<rparr>))"
            using rd fr \<open>index_of (wired_name s) names = Some i\<close> z op by simp
          have e2: "walk_spec names (c # cs) seen = Inl e"
            using Content \<open>index_of (wired_name s) names = Some i\<close> False Some by simp
          show ?thesis
            unfolding e1 e2 by (simp add: refines_def stderr_write_silent)
        next
          case None
          let ?fd = "fresh_fd (w_open ?w1)"
          let ?w2 = "?w1\<lparr>w_open := ?fd # w_open ?w1\<rparr>"
          have pos: "0 < ?fd" using fresh_fd_ge[of "w_open ?w1"] by linarith
          have inv: "fds_record (length names) (fdv[i := ?fd]) (i # seen)"
            using fds_record_update[OF Cons.prems(1) i pos] .
          obtain pd w3 where pd: "ina3221x_try_read_polling_delay_us c ?w2 = (pd, w3)"
            by fastforce
          from read_polling_delay_stderr[OF pd] have st: "w_stderr w3 = w_stderr w"
            by simp
          note IH = Cons.IH[OF inv oks bl,
              where d = "if 0 < pd \<and> d < word_of_int pd then word_of_int pd else d" and w = w3]
          from pos have nneg: "\<not> ?fd < 0" by simp
          have op: "ina3221x_open_power_file c ?w1 = (?fd, ?w2)"
            using None by (simp add: ina3221x_open_power_file_def sys_open_def Let_def)
          have e1: "walk_channels names (length names) (c # cs) buf fdv d w =
                walk_channels names (length names) cs buf' (fdv[i := ?fd])
                  (if 0 < pd \<and> d < word_of_int pd then word_of_int pd else d) w3"
            using rd fr \<open>index_of (wired_name s) names = Some i\<close> z op nneg pd by simp
          have e2: "walk_spec names (c # cs) seen = walk_spec names cs (i # seen)"
            using Content \<open>index_of (wired_name s) names = Some i\<close> False None by simp
          have "refines (length names) fdv w
                  (walk_channels names (length names) cs buf' (fdv[i := ?fd])
                    (if 0 < pd \<and> d < word_of_int pd then word_of_int pd else d) w3)
                  (walk_spec names cs (i # seen))"
            by (rule refines_cong[OF IH]) (simp_all add: st)
          then show ?thesis
            by (simp only: e1 e2)
        qed
      qed
    qed
  qed
qed

lemma walk_device_dir_refines:
  assumes "fds_record (length names) fdv seen" and "device_ok dev"
    and "\<forall>n \<in> set names. NUL \<notin> set n"
  shows "refines (length names) fdv w (ina3221x_walk_device_dir names fdv (length names) d dev w)
           (device_spec names dev seen)"
  unfolding ina3221x_walk_device_dir_def device_spec_def
  by (rule walk_channels_refines[OF assms(1) assms(2)[unfolded device_ok_def]
        stack_buffer_length assms(3)])

lemma walk_device_entries_refines:
  assumes "fds_record (length names) fdv seen"
    and "list_all (\<lambda>(entry, dev). device_ok dev) entries"
    and nn: "\<forall>n \<in> set names. NUL \<notin> set n"
  shows "refines (length names) fdv w (walk_device_entries names (length names) entries fdv d w)
           (devices_spec names entries seen)"
  using assms(1,2)
proof (induction entries arbitrary: fdv d w seen)
  case Nil
  then show ?case by (simp add: refines_def)
next
  case (Cons a entries)
  obtain entry dev where a: "a = (entry, dev)" by (cases a)
  from Cons.prems(2) a have dok: "device_ok dev"
    and oks: "list_all (\<lambda>(entry, dev). device_ok dev) entries"
    by simp_all
  show ?case
  proof (cases "is_iio_device_dir entry")
    case False
    with Cons.IH[OF Cons.prems(1) oks] a show ?thesis by simp
  next
    case True
    obtain ret fdv' d' w' where r: "ina3221x_walk_device_dir names fdv (length names) d dev w = (ret, fdv', d', w')"
      by (cases "ina3221x_walk_device_dir names fdv (length names) d dev w") auto
    note dev = walk_device_dir_refines[OF Cons.prems(1) dok nn, of w d, unfolded r]
    show ?thesis
    proof (cases "device_spec names dev seen")
      case (Inl e)
      with dev True a r show ?thesis by (simp add: refines_def)
    next
      case (Inr seen')
      with dev have *: "ret = 0" "length fdv' = length fdv" "fds_record (length names) fdv' seen'"
        "w_stderr w' = w_stderr w"
        by (simp_all add: refines_def)
      have "refines (length names) fdv w
              (walk_device_entries names (length names) entries fdv' d' w')
              (devices_spec names entries seen')"
        by (rule refines_cong[OF Cons.IH[OF *(3) oks]]) (simp_all add: *)
      with * True a r Inr show ?thesis
        by simp
    qed
  qed
qed

lemma sys_close_refines:
  "refines n fdv w (ret, fdv', d', w') spec \<Longrightarrow> refines n fdv w (ret, fdv', d', sys_close fd w') spec"
  by (auto simp: refines_def sys_close_def split: sum.splits)

lemma walk_bus_addr_dir_refines:
  assumes "fds_record (length names) fdv seen" and "bus_ok bus"
    and nn: "\<forall>n \<in> set names. NUL \<notin> set n"
  shows "refines (length names) fdv w (ina3221x_walk_bus_addr_dir names fdv (length names) d bus w)
           (bus_spec names bus seen)"
proof (cases bus)
  case (Inl e)
  then show ?thesis
    by (simp add: ina3221x_walk_bus_addr_dir_def bus_spec_def refines_def stderr_write_silent)
next
  case (Inr entries)
  let ?fd = "fresh_fd (w_open w)"
  let ?w1 = "w\<lparr>w_open := ?fd # w_open w\<rparr>"
  from assms(2) Inr have oks: "list_all (\<lambda>(entry, dev). device_ok dev) entries"
    by (simp add: bus_ok_def)
  obtain ret fdv' d' w2 where r: "walk_device_entries names (length names) entries fdv d ?w1 = (ret, fdv', d', w2)"
    by (metis prod_cases4)
  have "refines (length names) fdv w (ret, fdv', d', w2) (devices_spec names entries seen)"
    using refines_cong[OF walk_device_entries_refines[OF assms(1) oks nn, of ?w1 d], of fdv w]
    by (simp add: r)
  from sys_close_refines[OF this, of ?fd] show ?thesis
    using Inr r by (simp add: ina3221x_walk_bus_addr_dir_def bus_spec_def sys_open_def Let_def)
qed

lemma walk_bus_entries_refines:
  assumes "fds_record (length names) fdv seen"
    and "list_all (\<lambda>(entry, bus). bus_ok bus) entries"
    and nn: "\<forall>n \<in> set names. NUL \<notin> set n"
  shows "refines (length names) fdv w (walk_bus_entries names (length names) entries fdv d w)
           (buses_spec names entries seen)"
  using assms(1,2)
proof (induction entries arbitrary: fdv d w seen)
  case Nil
  then show ?case by (simp add: refines_def)
next
  case (Cons a entries)
  obtain entry bus where a: "a = (entry, bus)" by (cases a)
  from Cons.prems(2) a have bok: "bus_ok bus"
    and oks: "list_all (\<lambda>(entry, bus). bus_ok bus) entries"
    by simp_all
  show ?case
  proof (cases "is_i2c_bus_addr_dir entry")
    case False
    with Cons.IH[OF Cons.prems(1) oks] a show ?thesis by simp
  next
    case True
    obtain ret fdv' d' w' where r: "ina3221x_walk_bus_addr_dir names fdv (length names) d bus w = (ret, fdv', d', w')"
      by (cases "ina3221x_walk_bus_addr_dir names fdv (length names) d bus w") auto
    note b = walk_bus_addr_dir_refines[OF Cons.prems(1) bok nn, of w d, unfolded r]
    show ?thesis
    proof (cases "bus_spec names bus seen")
      case (Inl e)
      with b True a r show ?thesis by (simp add: refines_def)
    next
      case (Inr seen')
      with b have *: "ret = 0" "length fdv' = length fdv" "fds_record (length names) fdv' seen'"
        "w_stderr w' = w_stderr w"
        by (simp_all add: refines_def)
      have "refines (length names) fdv w
              (walk_bus_entries names (length names) entries fdv' d' w')
              (buses_spec names entries seen')"
        by (rule refines_cong[OF Cons.IH[OF *(3) oks]]) (simp_all add: *)
      with * True a r Inr show ?thesis
        by simp
    qed
  qed
qed

lemma walk_i2c_drivers_dir_refines:
  assumes "tree_ok root" and nn: "\<forall>n \<in> set names. NUL \<notin> set n"
  shows "refines (length names) (replicate (length names) 0) w
           (ina3221x_walk_i2c_drivers_dir names (replicate (length names) 0) (length names) d root w)
           (locate_spec names root)"
proof (cases root)
  case (Inl e)
  then show ?thesis
    by (simp add: ina3221x_walk_i2c_drivers_dir_def locate_spec_def refines_def stderr_write_silent)
next
  case (Inr entries)
  let ?z = "replicate (length names) (0 :: int)"
  let ?fd = "fresh_fd (w_open w)"
  let ?w1 = "w\<lparr>w_open := ?fd # w_open w\<rparr>"
  from assms(1) Inr have oks: "list_all (\<lambda>(entry, bus). bus_ok bus) entries"
    by (simp add: tree_ok_def)
  obtain ret fdv' d' w2 where r: "walk_bus_entries names (length names) entries ?z d ?w1 = (ret, fdv', d', w2)"
    by (metis prod_cases4)
  have "refines (length names) ?z w (ret, fdv', d', w2) (buses_spec names entries [])"
    using refines_cong[OF walk_bus_entries_refines[OF fds_record_zeros oks nn, of ?w1 d], of ?z w]
    by (simp add: r)
  from sys_close_refines[OF this, of ?fd] show ?thesis
    using Inr r by (simp add: ina3221x_walk_i2c_drivers_dir_def locate_spec_def sys_open_def Let_def)
qed

text \<open>
  The targets a completed walk reports are the positions of the rails that the tree
  exposes.
\<close>

lemma walk_spec_seen:
  "walk_spec names cs seen = Inr seen' \<Longrightarrow>
   set seen' = set seen \<union> {i. \<exists>x \<in> set (channel_names cs). index_of x names = Some i}"
proof (induction cs arbitrary: seen)
  case Nil
  then show ?case by (simp add: channel_names_def)
next
  case (Cons c cs)
  show ?case
  proof (cases "rail_name c")
    case (Unreadable e)
    with Cons.prems have "walk_spec names cs seen = Inr seen'"
      by (simp split: if_splits)
    from Cons.IH[OF this] Unreadable show ?thesis
      by (simp add: channel_names_def)
  next
    case (Content s)
    show ?thesis
    proof (cases "index_of (wired_name s) names")
      case None
      with Cons.prems Content have "walk_spec names cs seen = Inr seen'"
        by simp
      from Cons.IH[OF this] Content None show ?thesis
        by (auto simp: channel_names_def)
    next
      case (Some i)
      with Cons.prems Content have "walk_spec names cs (i # seen) = Inr seen'"
        by (simp split: if_splits option.splits)
      from Cons.IH[OF this] Content Some show ?thesis
        by (auto simp: channel_names_def)
    qed
  qed
qed

lemma bus_rail_names_Cons:
  "bus_rail_names (Inr ((entry, dev) # entries)) =
     (if is_iio_device_dir entry then device_rail_names dev else []) @ bus_rail_names (Inr entries)"
  by (simp add: bus_rail_names_def)

lemma tree_rail_names_Cons:
  "tree_rail_names (Inr ((entry, bus) # entries)) =
     (if is_i2c_bus_addr_dir entry then bus_rail_names bus else []) @ tree_rail_names (Inr entries)"
  by (simp add: tree_rail_names_def)

lemma devices_spec_seen:
  "devices_spec names entries seen = Inr seen' \<Longrightarrow>
   set seen' = set seen \<union> {i. \<exists>x \<in> set (bus_rail_names (Inr entries)). index_of x names = Some i}"
proof (induction entries arbitrary: seen)
  case Nil
  then show ?case by (simp add: bus_rail_names_def)
next
  case (Cons a entries)
  obtain entry dev where a: "a = (entry, dev)" by (cases a)
  show ?case
  proof (cases "is_iio_device_dir entry")
    case False
    with Cons.prems a have "devices_spec names entries seen = Inr seen'" by simp
    from Cons.IH[OF this] False a show ?thesis
      by (simp add: bus_rail_names_Cons)
  next
    case True
    with Cons.prems a obtain mid where m: "device_spec names dev seen = Inr mid"
      and r: "devices_spec names entries mid = Inr seen'"
      by (auto split: sum.splits)
    from walk_spec_seen[OF m[unfolded device_spec_def]]
    have "set mid = set seen \<union> {i. \<exists>x \<in> set (device_rail_names dev). index_of x names = Some i}"
      by (simp add: device_rail_names_def)
    with Cons.IH[OF r] True a show ?thesis
      by (auto simp: bus_rail_names_Cons)
  qed
qed

lemma buses_spec_seen:
  "buses_spec names entries seen = Inr seen' \<Longrightarrow>
   set seen' = set seen \<union> {i. \<exists>x \<in> set (tree_rail_names (Inr entries)). index_of x names = Some i}"
proof (induction entries arbitrary: seen)
  case Nil
  then show ?case by (simp add: tree_rail_names_def)
next
  case (Cons a entries)
  obtain entry bus where a: "a = (entry, bus)" by (cases a)
  show ?case
  proof (cases "is_i2c_bus_addr_dir entry")
    case False
    with Cons.prems a have "buses_spec names entries seen = Inr seen'" by simp
    from Cons.IH[OF this] False a show ?thesis
      by (simp add: tree_rail_names_Cons)
  next
    case True
    with Cons.prems a obtain mid where m: "bus_spec names bus seen = Inr mid"
      and r: "buses_spec names entries mid = Inr seen'"
      by (auto split: sum.splits)
    from m obtain devs where b: "bus = Inr devs" and md: "devices_spec names devs seen = Inr mid"
      by (cases bus) (simp_all add: bus_spec_def)
    from devices_spec_seen[OF md]
    have "set mid = set seen \<union> {i. \<exists>x \<in> set (bus_rail_names bus). index_of x names = Some i}"
      by (simp add: b)
    with Cons.IH[OF r] True a show ?thesis
      by (auto simp: tree_rail_names_Cons)
  qed
qed

lemma locate_spec_seen:
  assumes "locate_spec names root = Inr seen"
  shows "set seen = {i. \<exists>x \<in> set (tree_rail_names root). index_of x names = Some i}"
proof -
  from assms obtain entries where r: "root = Inr entries" and b: "buses_spec names entries [] = Inr seen"
    by (cases root) (simp_all add: locate_spec_def)
  from buses_spec_seen[OF b] show ?thesis
    by (simp add: r)
qed

lemma locate_spec_found:
  assumes "locate_spec names root = Inr seen"
  shows "i < length names \<Longrightarrow> i \<in> set seen \<Longrightarrow> names ! i \<in> set (tree_rail_names root)"
    and "n \<in> set names \<Longrightarrow> n \<notin> set (tree_rail_names root) \<Longrightarrow> \<exists>i < length names. i \<notin> set seen"
proof -
  note s = locate_spec_seen[OF assms]
  show "i < length names \<Longrightarrow> i \<in> set seen \<Longrightarrow> names ! i \<in> set (tree_rail_names root)"
    using s index_of_Some by fastforce
  assume n: "n \<in> set names" "n \<notin> set (tree_rail_names root)"
  from index_of_mem[OF n(1)] obtain i where i: "index_of n names = Some i" by blast
  from index_of_Some[OF i] have il: "i < length names" and ni: "names ! i = n" by simp_all
  have "i \<notin> set seen"
  proof
    assume "i \<in> set seen"
    with s obtain x where "x \<in> set (tree_rail_names root)" "index_of x names = Some i"
      by auto
    with index_of_Some[of x names i] ni n(2) show False by simp
  qed
  with il show "\<exists>i < length names. i \<notin> set seen" by blast
qed

section \<open>The default profiles\<close>

text \<open>
  C1 fails on the code. On a board that exposes only the rail VDD_IN (the board the
  second profile is written for) the first profile, VDD_IN with VDD_MUX, is matched in
  part. The check loop closes and clears its descriptors and breaks, and the
  \<^verbatim>\<open>return 0\<close> that follows the loop is reached all the same: the search ends
  with success, \<open>n_fds = 2\<close> and no descriptor, although the second profile is matched
  in full by this tree. \<^verbatim>\<open>energymon_init_jetson\<close> then succeeds with two rails that
  are both descriptor 0.
\<close>

theorem default_partial_match_accepted:
  "ina3221x_walk_i2c_drivers_dir_for_default (replicate 6 0) 6 0 (one_device vdd_in_only) w0
     = (0, [0, 0, 0, 0, 0, 0], 2, 0, w0\<lparr>w_errno := Some ENOENT\<rparr>)
   \<and> locate_spec (map the (take (count_rail_names DEFAULT_RAIL_NAMES_VDD_IN) DEFAULT_RAIL_NAMES_VDD_IN))
        (one_device vdd_in_only) = Inr [0]
   \<and> energymon_init_jetson (env_default vdd_in_only) None w0 =
       Some (0, Some \<lparr>polling_delay_us = 100000, poll_sensors = 1, total_uj = 0, count = 2,
                      fds = [0, 0, 0, 0, 0, 0]\<rparr>,
             w0\<lparr>w_live := 1, w_budget := 99, w_thread := True\<rparr>)"
  by code_simp

text \<open>
  C9 fails on the code. No rail names are given and the tree exposes the rails VDD_MUX,
  GPU and CPU, each on one channel of one device; every name file is a well-formed line
  and every power file opens. The search for the first profile opens VDD_MUX into
  \<^verbatim>\<open>fds[1]\<close> (descriptor 5) and, VDD_IN missing, leaves it there. In the search for
  the AGX Xavier profile the walk over the device matches GPU at index 0 and then CPU at
  index 1, finds the descriptor the first profile left, reports a duplicate sensor name
  and fails with EEXIST: this although no name file fails to read, no power file fails
  to open and no two channels carry the same name, so that the walk in the
  specification's words completes with both targets matched. Initialization fails with
  EEXIST.
\<close>

theorem walk_fails_without_duplicate:
  "ina3221x_walk_device_dir agx_xavier_names [0, 5, 0, 0, 0, 0] 6 0 mux_gpu_cpu
       (w0\<lparr>w_open := [4, 3, 5]\<rparr>)
     = (- 1, [6, 5, 0, 0, 0, 0], 0, w0\<lparr>w_errno := Some EEXIST, w_open := [6, 4, 3, 5]\<rparr>)
   \<and> device_spec agx_xavier_names mux_gpu_cpu [] = Inr [1, 0]
   \<and> device_ok mux_gpu_cpu
   \<and> distinct (tree_rail_names (one_device mux_gpu_cpu))
   \<and> energymon_init_jetson (env_default mux_gpu_cpu) None w0
     = Some (- 1, None, w0\<lparr>w_errno := Some EEXIST, w_budget := 99\<rparr>)"
proof -
  let ?root = "one_device mux_gpu_cpu"
  let ?wa = "\<lparr>w_errno = None, w_open = [], w_live = 1, w_budget = 99, w_thread = False,
              w_stderr = None\<rparr>"
  let ?wb = "\<lparr>w_errno = None, w_open = [5], w_live = 1, w_budget = 99, w_thread = False,
              w_stderr = None\<rparr>"
  let ?wc = "\<lparr>w_errno = Some EEXIST, w_open = [6, 5], w_live = 1, w_budget = 99,
              w_thread = False, w_stderr = None\<rparr>"
  let ?st = "\<lparr>polling_delay_us = 0, poll_sensors = 0, total_uj = 0, count = 6,
              fds = [6, 5, 0, 0, 0, 0]\<rparr>"
  have al: "alloc w0 = (True, ?wa)"
    by code_simp
  have p1: "ina3221x_walk_i2c_drivers_dir [''VDD_IN'', ''VDD_MUX''] [0, 0, 0, 0, 0, 0] 2 0 ?root ?wa
              = (0, [0, 5, 0, 0, 0, 0], 0, ?wb)"
    by code_simp
  have p2: "ina3221x_walk_i2c_drivers_dir [''VDD_IN''] [0, 5, 0, 0, 0, 0] 1 0 ?root ?wb
              = (0, [0, 5, 0, 0, 0, 0], 0, ?wb)"
    by code_simp
  have p3: "ina3221x_walk_i2c_drivers_dir [''POM_5V_IN''] [0, 5, 0, 0, 0, 0] 1 0 ?root ?wb
              = (0, [0, 5, 0, 0, 0, 0], 0, ?wb)"
    by code_simp
  have p4: "ina3221x_walk_i2c_drivers_dir [''GPU'', ''CPU'', ''SOC'', ''CV'', ''VDDRQ'', ''SYS5V'']
              [0, 5, 0, 0, 0, 0] 6 0 ?root ?wb
              = (- 1, [6, 5, 0, 0, 0, 0], 0, ?wc)"
    by code_simp
  have n: "count_rail_names DEFAULT_RAIL_NAMES_TX = 2"
    "count_rail_names DEFAULT_RAIL_NAMES_VDD_IN = 1"
    "count_rail_names DEFAULT_RAIL_NAMES_POM_5V_IN = 1"
    "count_rail_names DEFAULT_RAIL_NAMES_AGX_XAVIER = 6"
    "map the (take 2 DEFAULT_RAIL_NAMES_TX) = [''VDD_IN'', ''VDD_MUX'']"
    "map the (take 1 DEFAULT_RAIL_NAMES_VDD_IN) = [''VDD_IN'']"
    "map the (take 1 DEFAULT_RAIL_NAMES_POM_5V_IN) = [''POM_5V_IN'']"
    "map the (take 6 DEFAULT_RAIL_NAMES_AGX_XAVIER) = [''GPU'', ''CPU'', ''SOC'', ''CV'', ''VDDRQ'', ''SYS5V'']"
    by code_simp+
  have d: "ina3221x_walk_i2c_drivers_dir_for_default [0, 0, 0, 0, 0, 0] 6 0 ?root ?wa
             = (- 1, [6, 5, 0, 0, 0, 0], 6, 0, ?wc)"
    by (simp add: ina3221x_walk_i2c_drivers_dir_for_default_def DEFAULT_RAIL_NAMES_def n p1 p2 p3 p4 del: One_nat_def)
  have fr: "fail_rails ?st None ?wc = (- 1, None, w0\<lparr>w_errno := Some EEXIST, w_budget := 99\<rparr>)"
    by code_simp
  have z: "replicate NUM_RAILS_DEFAULT_MAX (0 :: int) = [0, 0, 0, 0, 0, 0]"
    "NUM_RAILS_DEFAULT_MAX = 6" "replicate 6 (0 :: int) = [0, 0, 0, 0, 0, 0]"
    by code_simp+
  have e: "rail_names_env (env_default mux_gpu_cpu) = None" "sysfs (env_default mux_gpu_cpu) = ?root"
    by (simp_all add: env_default_def)
  have i: "energymon_init_jetson (env_default mux_gpu_cpu) None w0
             = Some (- 1, None, w0\<lparr>w_errno := Some EEXIST, w_budget := 99\<rparr>)"
    by (simp add: energymon_init_jetson_def Let_def e al z d fr del: One_nat_def)
  have a: "ina3221x_walk_device_dir agx_xavier_names [0, 5, 0, 0, 0, 0] 6 0 mux_gpu_cpu
             (w0\<lparr>w_open := [4, 3, 5]\<rparr>)
           = (- 1, [6, 5, 0, 0, 0, 0], 0, w0\<lparr>w_errno := Some EEXIST, w_open := [6, 4, 3, 5]\<rparr>)"
    by code_simp
  have s: "device_spec agx_xavier_names mux_gpu_cpu [] = Inr [1, 0]"
    "device_ok mux_gpu_cpu" "distinct (tree_rail_names (one_device mux_gpu_cpu))"
    by code_simp+
  from a s i show ?thesis
    by blast
qed

section \<open>Initialization\<close>

text \<open>
  C5 fails on the code. No rail names are given, the tree exposes VDD_MUX and POM_5V_IN,
  and the interval override is too large for \<^verbatim>\<open>strtoul\<close>. The first profile finds
  VDD_MUX at index 1 but not VDD_IN at index 0, so its descriptor (5) is neither accepted
  nor closed; the third profile, POM_5V_IN, is accepted with \<open>n_fds = 1\<close>. When the
  resolver then returns 0, \<^verbatim>\<open>energymon_finish_jetson\<close> closes the \<open>count = 1\<close>
  descriptors and frees the state: the call returns -1 with the handle NULL and the heap
  as before, and descriptor 5 is still open. When instead the interval resolves and
  \<^verbatim>\<open>pthread_create\<close> fails, \<^verbatim>\<open>energymon_finish_jetson\<close> cancels a thread
  handle that was never set, and the call does not return.
\<close>

theorem init_failure_leaks_descriptor:
  "energymon_init_jetson env_override_overflows None w0 =
     Some (- 1, None, w0\<lparr>w_errno := Some ERANGE, w_open := [5], w_budget := 99\<rparr>)
   \<and> energymon_init_jetson env_thread_fails None w0 = None
   \<and> w_open w0 = []"
  by code_simp

lemma fail_alloc_ret: "\<exists>w'. fail_alloc rn w = (- 1, None, w')"
  by (cases rn) (simp_all add: fail_alloc_def)

lemma fail_rails_ret: "\<exists>w'. fail_rails st rn w = (- 1, None, w')"
  using fail_alloc_ret by (simp add: fail_rails_def split: prod.splits)

lemma finish_ret: "energymon_finish_jetson (Some st) w = Some (r, em', w') \<Longrightarrow> em' = None"
  by (auto simp: energymon_finish_jetson_def Let_def split: option.splits prod.splits if_splits)

lemma finish_no_thread:
  "poll_sensors st = 0 \<Longrightarrow> \<exists>r w'. energymon_finish_jetson (Some st) w = Some (r, None, w')"
  by (simp add: energymon_finish_jetson_def Let_def)

lemma init_start_cases:
  assumes "init_start env state d w = Some (ret, em', w')"
  shows "(ret = - 1 \<and> em' = None)
         \<or> (ret = 0 \<and> fst (get_polling_delay_us (interval_env env) d w) \<noteq> 0
              \<and> em' = Some (state\<lparr>polling_delay_us := fst (get_polling_delay_us (interval_env env) d w),
                                  poll_sensors := 1\<rparr>))"
proof -
  obtain us w1 where g: "get_polling_delay_us (interval_env env) d w = (us, w1)"
    by (cases "get_polling_delay_us (interval_env env) d w") auto
  show ?thesis
  proof (cases "us = 0")
    case True
    with assms g obtain r em2 w2 where
      f: "energymon_finish_jetson (Some (state\<lparr>polling_delay_us := us\<rparr>)) w1 = Some (r, em2, w2)"
      and e: "ret = - 1" "em' = em2"
      by (auto simp: init_start_def Let_def split: option.splits)
    from finish_ret[OF f] e show ?thesis by simp
  next
    case False
    obtain pr w2 where p: "pthread_create env w1 = (pr, w2)"
      by (cases "pthread_create env w1") auto
    show ?thesis
    proof (cases pr)
      case None
      with assms g False p show ?thesis
        by (simp add: init_start_def Let_def)
    next
      case (Some e)
      with assms g False p obtain r em2 w3 where
        f: "energymon_finish_jetson (Some (state\<lparr>polling_delay_us := us, poll_sensors := 1\<rparr>))
              (w2\<lparr>w_errno := Some e\<rparr>) = Some (r, em2, w3)"
        and e: "ret = - 1" "em' = em2"
        by (auto simp: init_start_def Let_def split: option.splits)
      from finish_ret[OF f] e show ?thesis by simp
    qed
  qed
qed

lemma init_start_zero:
  assumes "fst (get_polling_delay_us (interval_env env) d w) = 0" and "poll_sensors state = 0"
  shows "\<exists>w'. init_start env state d w = Some (- 1, None, w')"
proof -
  obtain us w1 where g: "get_polling_delay_us (interval_env env) d w = (us, w1)"
    by (cases "get_polling_delay_us (interval_env env) d w") auto
  with assms(1) have z: "us = 0" by simp
  from assms(2) have "poll_sensors (state\<lparr>polling_delay_us := us\<rparr>) = 0" by simp
  from finish_no_thread[OF this, of w1] obtain r w2 where
    "energymon_finish_jetson (Some (state\<lparr>polling_delay_us := us\<rparr>)) w1 = Some (r, None, w2)"
    by blast
  with g z show ?thesis
    by (simp add: init_start_def Let_def)
qed

lemma init_explicit_unfold:
  assumes "rail_names_env env = Some str"
    and "get_rail_names str w = (Some names, w1)"
    and "alloc w1 = (True, w2)"
    and "ina3221x_walk_i2c_drivers_dir names (replicate (length names) 0) (length names) 0 (sysfs env) w2
           = (ret, fdv, d, w3)"
  shows "energymon_init_jetson env None w =
         (if ret \<noteq> 0 then
            Some (fail_rails \<lparr>polling_delay_us = 0, poll_sensors = 0, total_uj = 0,
                              count = length names, fds = fdv\<rparr> (Some names) w3)
          else if list_ex (\<lambda>fd. fd \<le> 0) (take (length names) fdv) then
            Some (fail_rails \<lparr>polling_delay_us = 0, poll_sensors = 0, total_uj = 0,
                              count = length names, fds = fdv\<rparr> (Some names)
                    (w3\<lparr>w_errno := Some ENODEV\<rparr>))
          else
            init_start env \<lparr>polling_delay_us = 0, poll_sensors = 0, total_uj = 0,
                            count = length names, fds = fdv\<rparr> d (free_rail_names names w3))"
  using assms by (simp add: energymon_init_jetson_def Let_def)

lemma init_cases:
  "(\<exists>em' w'. energymon_init_jetson env em w = Some (- 1, em', w'))
   \<or> (\<exists>state d w1. poll_sensors state = 0
         \<and> energymon_init_jetson env em w = init_start env state d w1)"
proof (cases em)
  case (Some st)
  then show ?thesis
    by (simp add: energymon_init_jetson_def)
next
  case None
  show ?thesis
  proof (cases "rail_names_env env")
    case n: None
    obtain ok w2 where a: "alloc w = (ok, w2)" by (cases "alloc w") auto
    show ?thesis
    proof (cases ok)
      case False
      with None n a fail_alloc_ret[of None w2] show ?thesis
        by (auto simp: energymon_init_jetson_def Let_def)
    next
      case True
      obtain r fdv k d w3 where
        wk: "ina3221x_walk_i2c_drivers_dir_for_default (replicate NUM_RAILS_DEFAULT_MAX 0)
               NUM_RAILS_DEFAULT_MAX 0 (sysfs env) w2 = (r, fdv, k, d, w3)"
        by (metis prod_cases5)
      let ?st = "\<lparr>polling_delay_us = 0, poll_sensors = 0, total_uj = 0,
                  count = NUM_RAILS_DEFAULT_MAX, fds = fdv\<rparr>"
      show ?thesis
      proof (cases "r = 0")
        case False
        with None n a True wk
          fail_rails_ret[of ?st None "if w_errno w3 = Some ENODEV then stderr_write w3 else w3"]
        show ?thesis
          by (auto simp: energymon_init_jetson_def Let_def)
      next
        case r0: True
        have "poll_sensors (?st\<lparr>count := k\<rparr>) = 0" by simp
        moreover have "energymon_init_jetson env em w = init_start env (?st\<lparr>count := k\<rparr>) d w3"
          using None n a True wk r0 by (simp add: energymon_init_jetson_def Let_def)
        ultimately show ?thesis by blast
      qed
    qed
  next
    case (Some str)
    obtain rn w1 where g: "get_rail_names str w = (rn, w1)" by (cases "get_rail_names str w") auto
    show ?thesis
    proof (cases rn)
      case n: None
      with None Some g show ?thesis
        by (simp add: energymon_init_jetson_def)
    next
      case s: (Some names)
      obtain ok w2 where a: "alloc w1 = (ok, w2)" by (cases "alloc w1") auto
      show ?thesis
      proof (cases ok)
        case False
        with None Some g s a fail_alloc_ret[of "Some names" w2] show ?thesis
          by (auto simp: energymon_init_jetson_def Let_def)
      next
        case True
        obtain r fdv d w3 where
          wk: "ina3221x_walk_i2c_drivers_dir names (replicate (length names) 0) (length names) 0 (sysfs env) w2
                 = (r, fdv, d, w3)"
          by (metis prod_cases4)
        from a True have a': "alloc w1 = (True, w2)" by simp
        note u = init_explicit_unfold[OF Some g[unfolded s] a' wk]
        let ?st = "\<lparr>polling_delay_us = 0, poll_sensors = 0, total_uj = 0, count = length names, fds = fdv\<rparr>"
        show ?thesis
        proof (cases "r \<noteq> 0 \<or> list_ex (\<lambda>fd. fd \<le> 0) (take (length names) fdv)")
          case True
          with u None fail_rails_ret[of ?st "Some names" w3]
            fail_rails_ret[of ?st "Some names" "w3\<lparr>w_errno := Some ENODEV\<rparr>"]
          show ?thesis
            by (auto split: if_splits)
        next
          case False
          have "poll_sensors ?st = 0" by simp
          moreover have "energymon_init_jetson env em w = init_start env ?st d (free_rail_names names w3)"
            using u None False by simp
          ultimately show ?thesis by blast
        qed
      qed
    qed
  qed
qed

lemma init_success:
  assumes "energymon_init_jetson env em w = Some (0, em', w')"
  shows "\<exists>state d w1. em' = Some (state\<lparr>polling_delay_us := fst (get_polling_delay_us (interval_env env) d w1),
                                         poll_sensors := 1\<rparr>)
           \<and> fst (get_polling_delay_us (interval_env env) d w1) \<noteq> 0"
proof -
  from init_cases[of env em w] assms obtain state d w1 where
    "init_start env state d w1 = Some (0, em', w')"
    by auto
  from init_start_cases[OF this] show ?thesis
    by auto
qed

text \<open>
  C4. Whenever \<^verbatim>\<open>energymon_init_jetson\<close> returns 0, the interval that
  \<^verbatim>\<open>energymon_get_interval_jetson\<close> returns for the handle it leaves is at least
  1000 us, whatever the override and the delay observed in sysfs are. When the resolver
  returns 0 for the environment's override, initialization returns -1.
\<close>

theorem init_interval_minimum:
  "(energymon_init_jetson env em w = Some (0, em', w')
      \<longrightarrow> 1000 \<le> fst (energymon_get_interval_jetson em' wg))
   \<and> (fst (get_polling_delay_us (interval_env env) d wr) = 0
      \<longrightarrow> map_option fst (energymon_init_jetson env em w) = Some (- 1))"
proof (intro conjI impI)
  assume a: "energymon_init_jetson env em w = Some (0, em', w')"
  from init_success[OF a] obtain state d' w2 where
    em': "em' = Some (state\<lparr>polling_delay_us := fst (get_polling_delay_us (interval_env env) d' w2),
                            poll_sensors := 1\<rparr>)"
    and nz: "fst (get_polling_delay_us (interval_env env) d' w2) \<noteq> 0"
    by blast
  from get_polling_delay_us_min[OF nz] show "1000 \<le> fst (energymon_get_interval_jetson em' wg)"
    by (simp add: em' energymon_get_interval_jetson_def)
next
  assume z: "fst (get_polling_delay_us (interval_env env) d wr) = 0"
  then obtain t v e where ev: "interval_env env = Some t" "strtoul t = (v, Some e)"
    using get_polling_delay_us_zero by blast
  from init_cases[of env em w]
  show "map_option fst (energymon_init_jetson env em w) = Some (- 1)"
  proof
    assume "\<exists>em' w'. energymon_init_jetson env em w = Some (- 1, em', w')"
    then show ?thesis by auto
  next
    assume "\<exists>state d w1. poll_sensors state = 0
              \<and> energymon_init_jetson env em w = init_start env state d w1"
    then obtain state d' w1 where p: "poll_sensors state = 0"
      and i: "energymon_init_jetson env em w = init_start env state d' w1"
      by blast
    have "fst (get_polling_delay_us (interval_env env) d' w1) = 0"
      using ev by (simp add: get_polling_delay_us_cases)
    from init_start_zero[OF this p] i show ?thesis
      by auto
  qed
qed

theorem init_interval_minimum_witness:
  "energymon_init_jetson (env_default tx_board) None w0 =
     Some (0, Some \<lparr>polling_delay_us = 100000, poll_sensors = 1, total_uj = 0, count = 2,
                    fds = [5, 6, 0, 0, 0, 0]\<rparr>,
           w0\<lparr>w_open := [6, 5], w_live := 1, w_budget := 99, w_thread := True\<rparr>)
   \<and> 1000 \<le> fst (energymon_get_interval_jetson
        (Some \<lparr>polling_delay_us = 100000, poll_sensors = 1, total_uj = 0, count = 2,
               fds = [5, 6, 0, 0, 0, 0]\<rparr>) w0)
   \<and> fst (get_polling_delay_us (interval_env env_bad_interval) 0 w0) = 0
   \<and> map_option fst (energymon_init_jetson env_bad_interval None w0) = Some (- 1)"
proof -
  have a: "energymon_init_jetson (env_default tx_board) None w0 =
     Some (0, Some \<lparr>polling_delay_us = 100000, poll_sensors = 1, total_uj = 0, count = 2,
                    fds = [5, 6, 0, 0, 0, 0]\<rparr>,
           w0\<lparr>w_open := [6, 5], w_live := 1, w_budget := 99, w_thread := True\<rparr>)"
    by code_simp
  have b: "fst (get_polling_delay_us (interval_env env_bad_interval) 0 w0) = 0"
    by code_simp
  note T = init_interval_minimum[where env = "env_default tx_board" and em = None and w = w0
      and wg = w0, THEN conjunct1, rule_format, OF a]
  note U = init_interval_minimum[where env = env_bad_interval and em = None and w = w0
      and d = 0 and wr = w0, THEN conjunct2, rule_format, OF b]
  from a b T U show ?thesis
    by blast
qed

section \<open>The explicit rail-name list\<close>

lemma has_duplicate_distinct: "has_duplicate xs \<longleftrightarrow> \<not> distinct xs"
  by (induction xs) auto

lemma fields_not_Nil: "fields s \<noteq> []"
  by (induction s) auto

lemma strtok_all_fields:
  "strtok_all s cur = filter (\<lambda>f. f \<noteq> []) ((cur @ hd (fields s)) # tl (fields s))"
proof (induction s arbitrary: cur)
  case Nil
  then show ?case by simp
next
  case (Cons c cs)
  have f: "hd (fields cs) # tl (fields cs) = fields cs"
    using fields_not_Nil[of cs] by simp
  show ?case
  proof (cases "c = CHR '',''")
    case True
    have "strtok_all cs [] = filter (\<lambda>f. f \<noteq> []) (fields cs)"
      using Cons.IH[of "[]"] f by simp
    with True show ?thesis by simp
  next
    case False
    with Cons.IH[of "cur @ [c]"] show ?thesis by simp
  qed
qed

lemma strtok_all_comma_list: "strtok_all s [] = comma_list s"
  using fields_not_Nil[of s] by (simp add: strtok_all_fields comma_list_def)

lemma c_str_id: "NUL \<notin> set s \<Longrightarrow> c_str s = s"
  by (auto simp: c_str_def takeWhile_eq_all_conv)

lemma strtok_all_chars: "n \<in> set (strtok_all s cur) \<Longrightarrow> set n \<subseteq> set s \<union> set cur"
proof (induction s arbitrary: cur n)
  case Nil
  then show ?case by (auto split: if_splits)
next
  case (Cons c cs)
  show ?case
  proof (cases "c = CHR '',''")
    case True
    with Cons.prems have "n = cur \<or> n \<in> set (strtok_all cs [])"
      by (auto split: if_splits)
    with Cons.IH[of n "[]"] show ?thesis by auto
  next
    case False
    with Cons.prems have "n \<in> set (strtok_all cs (cur @ [c]))" by simp
    from Cons.IH[OF this] show ?thesis by auto
  qed
qed

lemma comma_list_no_NUL: "NUL \<notin> set s \<Longrightarrow> \<forall>n \<in> set (comma_list s). NUL \<notin> set n"
  using strtok_all_chars[of _ s "[]"] by (fastforce simp: strtok_all_comma_list[symmetric])

lemma strtok_to_arr_loop_Some:
  "strtok_to_arr_loop toks arr w = (Some r, w') \<Longrightarrow> r = arr @ toks"
proof (induction toks arbitrary: arr w)
  case Nil
  then show ?case by simp
next
  case (Cons tok toks)
  obtain ok1 w1 where r: "realloc_arr (arr = []) w = (ok1, w1)"
    by (cases "realloc_arr (arr = []) w") auto
  obtain ok2 w2 where a: "alloc w1 = (ok2, w2)"
    by (cases "alloc w1") auto
  from Cons.prems r a have "ok1" "ok2"
    by (auto split: if_splits bool.splits)
  with Cons.prems r a have "strtok_to_arr_loop toks (arr @ [tok]) w2 = (Some r, w')"
    by simp
  from Cons.IH[OF this] show ?case by simp
qed

lemma strtok_to_arr_loop_budget:
  "2 * length toks \<le> w_budget w \<Longrightarrow>
   \<exists>w'. strtok_to_arr_loop toks arr w = (Some (arr @ toks), w')
        \<and> w_budget w' = w_budget w - 2 * length toks \<and> w_stderr w' = w_stderr w"
proof (induction toks arbitrary: arr w)
  case Nil
  then show ?case by simp
next
  case (Cons tok toks)
  let ?w1 = "w\<lparr>w_budget := w_budget w - 1,
               w_live := (if arr = [] then Suc (w_live w) else w_live w)\<rparr>"
  let ?w2 = "?w1\<lparr>w_budget := w_budget ?w1 - 1, w_live := Suc (w_live ?w1)\<rparr>"
  from Cons.prems have b: "w_budget w \<noteq> 0" "w_budget ?w1 \<noteq> 0" "2 * length toks \<le> w_budget ?w2"
    by simp_all
  have r: "realloc_arr (arr = []) w = (True, ?w1)"
    using b(1) by (simp add: realloc_arr_def)
  have a: "alloc ?w1 = (True, ?w2)"
    using b(2) by (simp add: alloc_def)
  from Cons.IH[OF b(3), of "arr @ [tok]"] obtain w' where
    "strtok_to_arr_loop toks (arr @ [tok]) ?w2 = (Some ((arr @ [tok]) @ toks), w')"
    "w_budget w' = w_budget ?w2 - 2 * length toks" "w_stderr w' = w_stderr ?w2"
    by blast
  then have "strtok_to_arr_loop (tok # toks) arr w = (Some (arr @ tok # toks), w')
             \<and> w_budget w' = w_budget w - 2 * length (tok # toks) \<and> w_stderr w' = w_stderr w"
    using r a by simp
  then show ?case by blast
qed

lemma get_rail_names_Some:
  assumes "get_rail_names str w = (Some names, w1)"
  shows "names = strtok_all (c_str str) [] \<and> \<not> has_duplicate names \<and> names \<noteq> []"
proof -
  obtain ok wa where a: "alloc w = (ok, wa)" by (cases "alloc w") auto
  with assms have ok: "ok" by (auto simp: get_rail_names_def split: bool.splits)
  obtain rn wb where s: "strtok_to_arr_r (c_str str) wa = (rn, wb)"
    by (cases "strtok_to_arr_r (c_str str) wa") auto
  from assms a ok s have rn: "rn = Some names" and nd: "\<not> has_duplicate names"
    by (auto simp: get_rail_names_def Let_def split: option.splits if_splits)
  obtain r wc where l: "strtok_to_arr_loop (strtok_all (c_str str) []) [] wa = (r, wc)"
    by (cases "strtok_to_arr_loop (strtok_all (c_str str) []) [] wa") auto
  from s rn l have "r = Some names" "names \<noteq> []"
    by (auto simp: strtok_to_arr_r_def split: option.splits list.splits)
  with l strtok_to_arr_loop_Some[of "strtok_all (c_str str) []" "[]" wa names wc] nd show ?thesis
    by simp
qed

lemma get_rail_names_res:
  assumes "2 * length (strtok_all (c_str str) []) + 1 \<le> w_budget w"
    and "strtok_all (c_str str) [] \<noteq> []"
  shows "\<exists>w1. get_rail_names str w =
            (if has_duplicate (strtok_all (c_str str) []) then None
             else Some (strtok_all (c_str str) []), w1)
          \<and> (has_duplicate (strtok_all (c_str str) []) \<longrightarrow> w_errno w1 = Some EINVAL)
          \<and> w_budget w1 = w_budget w - (2 * length (strtok_all (c_str str) []) + 1)
          \<and> w_stderr w1 = w_stderr w"
proof -
  let ?toks = "strtok_all (c_str str) []"
  let ?wa = "w\<lparr>w_budget := w_budget w - 1, w_live := Suc (w_live w)\<rparr>"
  from assms(1) have a: "alloc w = (True, ?wa)"
    by (simp add: alloc_def)
  from assms(1) have "2 * length ?toks \<le> w_budget ?wa"
    by simp
  from strtok_to_arr_loop_budget[OF this, of "[]"] obtain wb where
    l: "strtok_to_arr_loop ?toks [] ?wa = (Some ?toks, wb)"
    and b: "w_budget wb = w_budget ?wa - 2 * length ?toks"
    and st: "w_stderr wb = w_stderr ?wa"
    by auto
  from l assms(2) have s: "strtok_to_arr_r (c_str str) ?wa = (Some ?toks, wb)"
    by (simp add: strtok_to_arr_r_def split: list.splits)
  show ?thesis
  proof (cases "has_duplicate ?toks")
    case True
    with a s b st show ?thesis
      by (simp add: get_rail_names_def Let_def free_blocks_def free_rail_names_def)
  next
    case False
    with a s b st show ?thesis
      by (simp add: get_rail_names_def Let_def free_blocks_def)
  qed
qed

lemma close_and_clear_fds_errno:
  "close_and_clear_fds fdv n w = (fdv', w') \<Longrightarrow> w_errno w' = w_errno w"
proof (induction fdv n w arbitrary: fdv' w' rule: close_and_clear_fds.induct)
  case (1 fdv w)
  then show ?case by simp
next
  case (2 n w)
  then show ?case by simp
next
  case (3 fd rest n w)
  show ?case
  proof (cases "0 < fd")
    case True
    obtain r wr where c: "close_and_clear_fds rest n (sys_close fd w) = (r, wr)"
      by (cases "close_and_clear_fds rest n (sys_close fd w)") auto
    from "3.IH"(1)[OF True c] have "w_errno wr = w_errno (sys_close fd w)" .
    with "3.prems" True c show ?thesis
      by (simp add: sys_close_def)
  next
    case False
    obtain r wr where c: "close_and_clear_fds rest n w = (r, wr)"
      by (cases "close_and_clear_fds rest n w") auto
    from "3.IH"(2)[OF False c] "3.prems" False c show ?thesis
      by simp
  qed
qed

lemma fail_rails_errno:
  "\<exists>w'. fail_rails st rn w = (- 1, None, w') \<and> w_errno w' = w_errno w"
proof -
  obtain fdv' w1 where c: "close_and_clear_fds (fds st) (count st) w = (fdv', w1)"
    by (cases "close_and_clear_fds (fds st) (count st) w") auto
  from close_and_clear_fds_errno[OF c] c show ?thesis
    by (cases rn) (simp_all add: fail_rails_def fail_alloc_def free_blocks_def free_rail_names_def)
qed

lemma explicit_walk_outcome:
  assumes env: "rail_names_env env = Some str"
    and nul: "NUL \<notin> set str"
    and ok: "tree_ok (sysfs env)"
    and nd: "distinct (comma_list str)"
    and ne: "comma_list str \<noteq> []"
    and bud: "2 * length (comma_list str) + 2 \<le> w_budget w"
  shows "\<exists>ret fdv d w2 w3.
           refines (length (comma_list str)) (replicate (length (comma_list str)) 0) w2
             (ret, fdv, d, w3) (locate_spec (comma_list str) (sysfs env))
           \<and> w_stderr w2 = w_stderr w
           \<and> energymon_init_jetson env None w =
               (if ret \<noteq> 0 then
                  Some (fail_rails \<lparr>polling_delay_us = 0, poll_sensors = 0, total_uj = 0,
                                    count = length (comma_list str), fds = fdv\<rparr>
                          (Some (comma_list str)) w3)
                else if list_ex (\<lambda>fd. fd \<le> 0) (take (length (comma_list str)) fdv) then
                  Some (fail_rails \<lparr>polling_delay_us = 0, poll_sensors = 0, total_uj = 0,
                                    count = length (comma_list str), fds = fdv\<rparr>
                          (Some (comma_list str)) (w3\<lparr>w_errno := Some ENODEV\<rparr>))
                else
                  init_start env \<lparr>polling_delay_us = 0, poll_sensors = 0, total_uj = 0,
                                  count = length (comma_list str), fds = fdv\<rparr> d
                    (free_rail_names (comma_list str) w3))"
proof -
  let ?toks = "comma_list str"
  have tk: "strtok_all (c_str str) [] = ?toks"
    by (simp add: c_str_id[OF nul] strtok_all_comma_list)
  from bud have "2 * length (strtok_all (c_str str) []) + 1 \<le> w_budget w"
    by (simp add: tk)
  from get_rail_names_res[OF this] ne nd obtain w1 where
    g: "get_rail_names str w = (Some ?toks, w1)"
    and b: "w_budget w1 = w_budget w - (2 * length ?toks + 1)"
    and s1: "w_stderr w1 = w_stderr w"
    by (auto simp: tk has_duplicate_distinct)
  from b bud have "w_budget w1 \<noteq> 0" by simp
  then obtain w2 where a: "alloc w1 = (True, w2)" and s2: "w_stderr w2 = w_stderr w1"
    by (simp add: alloc_def)
  obtain ret fdv d w3 where
    wk: "ina3221x_walk_i2c_drivers_dir ?toks (replicate (length ?toks) 0) (length ?toks) 0 (sysfs env) w2
           = (ret, fdv, d, w3)"
    by (metis prod_cases4)
  from walk_i2c_drivers_dir_refines[OF ok comma_list_no_NUL[OF nul], of w2 0]
  have rf: "refines (length ?toks) (replicate (length ?toks) 0) w2 (ret, fdv, d, w3)
          (locate_spec ?toks (sysfs env))"
    by (simp only: wk)
  from s1 s2 have sw: "w_stderr w2 = w_stderr w" by simp
  from rf sw init_explicit_unfold[OF env g a wk] show ?thesis
    by blast
qed

lemma list_ex_take_intro:
  assumes "n \<le> length xs" "i < n" "P (xs ! i)"
  shows "list_ex P (take n xs)"
proof -
  from assms(1,2) have "take n xs ! i \<in> set (take n xs)"
    by (intro nth_mem) simp
  with assms(2,3) show ?thesis
    by (auto simp: list_ex_iff)
qed

text \<open>
  C8, as the code has it. The rail-name list is a C string and the name files of the
  tree are well-formed lines. When the list has a duplicate name and the allocations
  that copy the list succeed, initialization fails with EINVAL. When the names are
  distinct, the allocations succeed, the walk completes and one of the named rails is
  not among the rails the tree exposes, initialization fails with ENODEV. When the walk
  itself fails, initialization fails too, and where writes to the standard error stream
  leave errno alone, errno is the error of the walk. When initialization succeeds, the
  names are distinct, the walk has completed, every named rail is among the rails the
  tree exposes, \<open>count\<close> is the number of names and every descriptor is positive.
\<close>

theorem explicit_rail_names:
  assumes "rail_names_env env = Some str" and "NUL \<notin> set str" and "tree_ok (sysfs env)"
  shows "(\<not> distinct (comma_list str) \<and> 2 * length (comma_list str) + 1 \<le> w_budget w
            \<longrightarrow> (\<exists>w'. energymon_init_jetson env None w = Some (- 1, None, w')
                       \<and> w_errno w' = Some EINVAL))
         \<and> (distinct (comma_list str) \<and> 2 * length (comma_list str) + 2 \<le> w_budget w
              \<and> locate_spec (comma_list str) (sysfs env) = Inr seen
              \<and> (\<exists>n \<in> set (comma_list str). n \<notin> set (tree_rail_names (sysfs env)))
            \<longrightarrow> (\<exists>w'. energymon_init_jetson env None w = Some (- 1, None, w')
                       \<and> w_errno w' = Some ENODEV))
         \<and> (distinct (comma_list str) \<and> comma_list str \<noteq> []
              \<and> 2 * length (comma_list str) + 2 \<le> w_budget w
              \<and> locate_spec (comma_list str) (sysfs env) = Inl e
            \<longrightarrow> (\<exists>w'. energymon_init_jetson env None w = Some (- 1, None, w')
                       \<and> (w_stderr w = None \<longrightarrow> w_errno w' = Some e)))
         \<and> (energymon_init_jetson env None w = Some (0, em', w')
            \<longrightarrow> distinct (comma_list str)
                \<and> (\<exists>matched. locate_spec (comma_list str) (sysfs env) = Inr matched)
                \<and> (\<forall>n \<in> set (comma_list str). n \<in> set (tree_rail_names (sysfs env)))
                \<and> (\<exists>st. em' = Some st \<and> count st = length (comma_list str)
                          \<and> (\<forall>i<count st. 0 < fds st ! i)))"
proof -
  let ?toks = "comma_list str"
  let ?n = "length ?toks"
  have tk: "strtok_all (c_str str) [] = ?toks"
    by (simp add: c_str_id[OF assms(2)] strtok_all_comma_list)
  have c1: "\<not> distinct ?toks \<and> 2 * length ?toks + 1 \<le> w_budget w
            \<longrightarrow> (\<exists>w'. energymon_init_jetson env None w = Some (- 1, None, w')
                       \<and> w_errno w' = Some EINVAL)"
  proof
    assume h: "\<not> distinct ?toks \<and> 2 * length ?toks + 1 \<le> w_budget w"
    then have ne: "strtok_all (c_str str) [] \<noteq> []" by (auto simp: tk)
    from h have "2 * length (strtok_all (c_str str) []) + 1 \<le> w_budget w" by (simp add: tk)
    from get_rail_names_res[OF this ne] h obtain w1 where
      "get_rail_names str w = (None, w1)" "w_errno w1 = Some EINVAL"
      by (auto simp: tk has_duplicate_distinct)
    with assms(1)
    show "\<exists>w'. energymon_init_jetson env None w = Some (- 1, None, w') \<and> w_errno w' = Some EINVAL"
      by (simp add: energymon_init_jetson_def)
  qed
  have c2: "distinct ?toks \<and> 2 * ?n + 2 \<le> w_budget w
              \<and> locate_spec ?toks (sysfs env) = Inr seen
              \<and> (\<exists>n \<in> set ?toks. n \<notin> set (tree_rail_names (sysfs env)))
            \<longrightarrow> (\<exists>w'. energymon_init_jetson env None w = Some (- 1, None, w')
                       \<and> w_errno w' = Some ENODEV)"
  proof
    assume h: "distinct ?toks \<and> 2 * ?n + 2 \<le> w_budget w
                 \<and> locate_spec ?toks (sysfs env) = Inr seen
                 \<and> (\<exists>n \<in> set ?toks. n \<notin> set (tree_rail_names (sysfs env)))"
    then obtain n where n: "n \<in> set ?toks" "n \<notin> set (tree_rail_names (sysfs env))" by blast
    then have ne: "?toks \<noteq> []" by auto
    from h have ls: "locate_spec ?toks (sysfs env) = Inr seen" by blast
    from locate_spec_found(2)[OF ls n] obtain i where i: "i < ?n" "i \<notin> set seen" by blast
    from h ne explicit_walk_outcome[OF assms, of w] obtain ret fdv d w2 w3 where
      rf: "refines ?n (replicate ?n 0) w2 (ret, fdv, d, w3) (locate_spec ?toks (sysfs env))"
      and u: "energymon_init_jetson env None w =
                 (if ret \<noteq> 0 then
                    Some (fail_rails \<lparr>polling_delay_us = 0, poll_sensors = 0, total_uj = 0, count = ?n, fds = fdv\<rparr>
                      (Some ?toks) w3)
                  else if list_ex (\<lambda>fd. fd \<le> 0) (take ?n fdv) then
                    Some (fail_rails \<lparr>polling_delay_us = 0, poll_sensors = 0, total_uj = 0, count = ?n, fds = fdv\<rparr>
                      (Some ?toks) (w3\<lparr>w_errno := Some ENODEV\<rparr>))
                  else
                    init_start env \<lparr>polling_delay_us = 0, poll_sensors = 0, total_uj = 0, count = ?n, fds = fdv\<rparr> d
                      (free_rail_names ?toks w3))"
      by blast
    from rf ls have r0: "ret = 0" and rec: "fds_record ?n fdv seen"
      by (simp_all add: refines_def)
    from fds_recordD[OF rec i(1)] i(2) have "fdv ! i \<le> 0" by simp
    moreover from rec have "?n \<le> length fdv" by (simp add: fds_record_def)
    ultimately have "list_ex (\<lambda>fd. fd \<le> 0) (take ?n fdv)"
      using list_ex_take_intro[where P = "\<lambda>fd. fd \<le> 0" and n = ?n and xs = fdv, OF _ i(1)] by blast
    with u r0 fail_rails_errno[of "\<lparr>polling_delay_us = 0, poll_sensors = 0, total_uj = 0, count = ?n, fds = fdv\<rparr>"
        "Some ?toks" "w3\<lparr>w_errno := Some ENODEV\<rparr>"]
    show "\<exists>w'. energymon_init_jetson env None w = Some (- 1, None, w') \<and> w_errno w' = Some ENODEV"
      by auto
  qed
  have c3: "distinct ?toks \<and> ?toks \<noteq> [] \<and> 2 * ?n + 2 \<le> w_budget w
              \<and> locate_spec ?toks (sysfs env) = Inl e
            \<longrightarrow> (\<exists>w'. energymon_init_jetson env None w = Some (- 1, None, w')
                       \<and> (w_stderr w = None \<longrightarrow> w_errno w' = Some e))"
  proof
    assume h: "distinct ?toks \<and> ?toks \<noteq> [] \<and> 2 * ?n + 2 \<le> w_budget w
                 \<and> locate_spec ?toks (sysfs env) = Inl e"
    from h explicit_walk_outcome[OF assms, of w] obtain ret fdv d w2 w3 where
      rf: "refines ?n (replicate ?n 0) w2 (ret, fdv, d, w3) (locate_spec ?toks (sysfs env))"
      and sw: "w_stderr w2 = w_stderr w"
      and u: "energymon_init_jetson env None w =
                 (if ret \<noteq> 0 then
                    Some (fail_rails \<lparr>polling_delay_us = 0, poll_sensors = 0, total_uj = 0, count = ?n, fds = fdv\<rparr>
                      (Some ?toks) w3)
                  else if list_ex (\<lambda>fd. fd \<le> 0) (take ?n fdv) then
                    Some (fail_rails \<lparr>polling_delay_us = 0, poll_sensors = 0, total_uj = 0, count = ?n, fds = fdv\<rparr>
                      (Some ?toks) (w3\<lparr>w_errno := Some ENODEV\<rparr>))
                  else
                    init_start env \<lparr>polling_delay_us = 0, poll_sensors = 0, total_uj = 0, count = ?n, fds = fdv\<rparr> d
                      (free_rail_names ?toks w3))"
      by blast
    from rf h sw have r: "ret = - 1" and er: "w_stderr w = None \<longrightarrow> w_errno w3 = Some e"
      by (simp_all add: refines_def)
    with u fail_rails_errno[of "\<lparr>polling_delay_us = 0, poll_sensors = 0, total_uj = 0, count = ?n, fds = fdv\<rparr>"
        "Some ?toks" w3]
    show "\<exists>w'. energymon_init_jetson env None w = Some (- 1, None, w')
                \<and> (w_stderr w = None \<longrightarrow> w_errno w' = Some e)"
      by auto
  qed
  have c4: "energymon_init_jetson env None w = Some (0, em', w')
            \<longrightarrow> distinct ?toks
                \<and> (\<exists>matched. locate_spec ?toks (sysfs env) = Inr matched)
                \<and> (\<forall>n \<in> set ?toks. n \<in> set (tree_rail_names (sysfs env)))
                \<and> (\<exists>st. em' = Some st \<and> count st = ?n \<and> (\<forall>i<count st. 0 < fds st ! i))"
  proof
    assume ok: "energymon_init_jetson env None w = Some (0, em', w')"
    obtain rn w1 where g: "get_rail_names str w = (rn, w1)" by (cases "get_rail_names str w") auto
    from ok assms(1) g obtain names where rn: "rn = Some names"
      by (cases rn) (simp_all add: energymon_init_jetson_def)
    from get_rail_names_Some[OF g[unfolded rn]] have nm: "names = ?toks" and nd: "distinct ?toks"
      by (auto simp: tk has_duplicate_distinct)
    obtain a w2 where al: "alloc w1 = (a, w2)" by (cases "alloc w1") auto
    from ok assms(1) g rn al fail_alloc_ret[of "Some names" w2] have "a"
      by (cases a) (auto simp: energymon_init_jetson_def Let_def)
    with al have al': "alloc w1 = (True, w2)" by simp
    obtain ret fdv d w3 where
      wk: "ina3221x_walk_i2c_drivers_dir ?toks (replicate ?n 0) ?n 0 (sysfs env) w2 = (ret, fdv, d, w3)"
      by (metis prod_cases4)
    let ?st = "\<lparr>polling_delay_us = 0, poll_sensors = 0, total_uj = 0, count = ?n, fds = fdv\<rparr>"
    note u = init_explicit_unfold[OF assms(1) g[unfolded rn nm] al' wk]
    from u ok fail_rails_ret[of ?st "Some ?toks" w3]
      fail_rails_ret[of ?st "Some ?toks" "w3\<lparr>w_errno := Some ENODEV\<rparr>"]
    have r0: "ret = 0" and nex: "\<not> list_ex (\<lambda>fd. fd \<le> 0) (take ?n fdv)"
      and st: "init_start env ?st d (free_rail_names ?toks w3) = Some (0, em', w')"
      by (auto split: if_splits)
    from init_start_cases[OF st]
    have em': "em' = Some (?st\<lparr>polling_delay_us :=
                  fst (get_polling_delay_us (interval_env env) d (free_rail_names ?toks w3)),
                  poll_sensors := 1\<rparr>)"
      by simp
    from walk_i2c_drivers_dir_refines[OF assms(3) comma_list_no_NUL[OF assms(2)], of w2 0]
    have rf: "refines ?n (replicate ?n 0) w2 (ret, fdv, d, w3) (locate_spec ?toks (sysfs env))"
      by (simp only: wk)
    with r0 obtain matched where lm: "locate_spec ?toks (sysfs env) = Inr matched"
      and rec: "fds_record ?n fdv matched"
      by (cases "locate_spec ?toks (sysfs env)") (simp_all add: refines_def)
    from rec have len: "?n \<le> length fdv" by (simp add: fds_record_def)
    have all: "\<forall>i<?n. i \<in> set matched \<and> 0 < fdv ! i"
    proof (intro allI impI)
      fix i assume i: "i < ?n"
      have "\<not> fdv ! i \<le> 0"
      proof
        assume "fdv ! i \<le> 0"
        with list_ex_take_intro[where P = "\<lambda>fd. fd \<le> 0", OF len i] nex show False
          by blast
      qed
      then have "0 < fdv ! i"
        by simp
      with fds_recordD[OF rec i] show "i \<in> set matched \<and> 0 < fdv ! i"
        by simp
    qed
    have found: "\<forall>n \<in> set ?toks. n \<in> set (tree_rail_names (sysfs env))"
    proof
      fix n assume "n \<in> set ?toks"
      then obtain i where i: "i < ?n" "?toks ! i = n"
        by (auto simp: in_set_conv_nth)
      with all have "i \<in> set matched" by blast
      from locate_spec_found(1)[OF lm i(1) this] i(2) show "n \<in> set (tree_rail_names (sysfs env))"
        by simp
    qed
    from em' all have "\<exists>st. em' = Some st \<and> count st = ?n \<and> (\<forall>i<count st. 0 < fds st ! i)"
      by simp
    with nd lm found
    show "distinct ?toks
            \<and> (\<exists>matched. locate_spec ?toks (sysfs env) = Inr matched)
            \<and> (\<forall>n \<in> set ?toks. n \<in> set (tree_rail_names (sysfs env)))
            \<and> (\<exists>st. em' = Some st \<and> count st = ?n \<and> (\<forall>i<count st. 0 < fds st ! i))"
      by blast
  qed
  from c1 c2 c3 c4 show ?thesis
    by blast
qed

theorem explicit_rail_names_witness:
  "(\<exists>w'. energymon_init_jetson env_duplicate_name None w0 = Some (- 1, None, w')
          \<and> w_errno w' = Some EINVAL)
   \<and> (\<exists>w'. energymon_init_jetson env_missing_rail None w0 = Some (- 1, None, w')
          \<and> w_errno w' = Some ENODEV)
   \<and> (\<exists>w'. energymon_init_jetson env_name_unreadable None w0 = Some (- 1, None, w')
          \<and> w_errno w' = Some EIO)
   \<and> energymon_init_jetson env_three_names None w0 =
       Some (0, Some \<lparr>polling_delay_us = 100000, poll_sensors = 1, total_uj = 0, count = 3,
                      fds = [5, 6, 7]\<rparr>,
             w0\<lparr>w_open := [7, 6, 5], w_live := 1, w_budget := 92, w_thread := True\<rparr>)
   \<and> distinct (comma_list ''GPU,CPU,SOC'')
   \<and> list_all (\<lambda>n. n \<in> set (tree_rail_names (sysfs env_three_names))) (comma_list ''GPU,CPU,SOC'')"
proof -
  have e1: "rail_names_env env_duplicate_name = Some ''GPU,CPU,GPU''"
    by (simp add: env_duplicate_name_def env_names_def)
  have n1: "NUL \<notin> set ''GPU,CPU,GPU''" and t1: "tree_ok (sysfs env_duplicate_name)"
    by code_simp+
  have h1: "\<not> distinct (comma_list ''GPU,CPU,GPU'')
            \<and> 2 * length (comma_list ''GPU,CPU,GPU'') + 1 \<le> w_budget w0"
    by code_simp
  note c1 = explicit_rail_names[OF e1 n1 t1, where w = w0, THEN conjunct1, rule_format, OF h1]
  have e2: "rail_names_env env_missing_rail = Some ''GPU,VDD_IN''"
    by (simp add: env_missing_rail_def env_names_def)
  have n2: "NUL \<notin> set ''GPU,VDD_IN''" and t2: "tree_ok (sysfs env_missing_rail)"
    by code_simp+
  have h2: "distinct (comma_list ''GPU,VDD_IN'')
            \<and> 2 * length (comma_list ''GPU,VDD_IN'') + 2 \<le> w_budget w0
            \<and> locate_spec (comma_list ''GPU,VDD_IN'') (sysfs env_missing_rail) = Inr [0]
            \<and> (\<exists>n \<in> set (comma_list ''GPU,VDD_IN''). n \<notin> set (tree_rail_names (sysfs env_missing_rail)))"
    by code_simp
  note c2 = explicit_rail_names[OF e2 n2 t2, where w = w0 and seen = "[0]",
      THEN conjunct2, THEN conjunct1, rule_format, OF h2]
  have e3: "rail_names_env env_name_unreadable = Some ''GPU''"
    by (simp add: env_name_unreadable_def env_names_def)
  have n3: "NUL \<notin> set ''GPU''" and t3: "tree_ok (sysfs env_name_unreadable)"
    by code_simp+
  have h3: "distinct (comma_list ''GPU'') \<and> comma_list ''GPU'' \<noteq> []
            \<and> 2 * length (comma_list ''GPU'') + 2 \<le> w_budget w0
            \<and> locate_spec (comma_list ''GPU'') (sysfs env_name_unreadable) = Inl EIO"
    by code_simp
  have s3: "w_stderr w0 = None"
    by (simp add: w0_def)
  from explicit_rail_names[OF e3 n3 t3, where w = w0 and e = EIO,
      THEN conjunct2, THEN conjunct2, THEN conjunct1, rule_format, OF h3] s3
  have c3: "\<exists>w'. energymon_init_jetson env_name_unreadable None w0 = Some (- 1, None, w')
                 \<and> w_errno w' = Some EIO"
    by blast
  have e4: "rail_names_env env_three_names = Some ''GPU,CPU,SOC''"
    by (simp add: env_three_names_def env_names_def)
  have n4: "NUL \<notin> set ''GPU,CPU,SOC''" and t4: "tree_ok (sysfs env_three_names)"
    by code_simp+
  have h4: "energymon_init_jetson env_three_names None w0 =
     Some (0, Some \<lparr>polling_delay_us = 100000, poll_sensors = 1, total_uj = 0, count = 3,
                    fds = [5, 6, 7]\<rparr>,
           w0\<lparr>w_open := [7, 6, 5], w_live := 1, w_budget := 92, w_thread := True\<rparr>)"
    by code_simp
  note T = explicit_rail_names[OF e4 n4 t4, where w = w0,
      THEN conjunct2, THEN conjunct2, THEN conjunct2, rule_format, OF h4]
  from T have c4: "distinct (comma_list ''GPU,CPU,SOC'')"
    by blast
  from T have "\<forall>n \<in> set (comma_list ''GPU,CPU,SOC''). n \<in> set (tree_rail_names (sysfs env_three_names))"
    by blast
  then have c5: "list_all (\<lambda>n. n \<in> set (tree_rail_names (sysfs env_three_names))) (comma_list ''GPU,CPU,SOC'')"
    by (simp only: list_all_iff)
  from c1 c2 c3 h4 c4 c5 show ?thesis
    by blast
qed

text \<open>
  C8 as stated fails in two ways. When the walk itself fails, the error is the walk's:
  the list names the rail GPU and the driver directory does not exist (a machine without
  the ina3221x driver), so the rail is not matched, and initialization fails with the
  ENOENT of \<^verbatim>\<open>opendir\<close>, or with what \<^verbatim>\<open>perror\<close> leaves in errno (here EINVAL),
  not with ENODEV. And a list with a duplicate name does not give EINVAL when an
  allocation fails while the list is copied: with three allocations left the error is
  ENOMEM.
\<close>

theorem explicit_rail_unmatched_counterexample:
  "energymon_init_jetson env_no_driver None w0 =
     Some (- 1, None, w0\<lparr>w_errno := Some ENOENT, w_budget := 96\<rparr>)
   \<and> energymon_init_jetson env_no_driver None (w0\<lparr>w_stderr := Some EINVAL\<rparr>) =
     Some (- 1, None, w0\<lparr>w_errno := Some EINVAL, w_budget := 96, w_stderr := Some EINVAL\<rparr>)
   \<and> ''GPU'' \<in> set (comma_list ''GPU'')
   \<and> ''GPU'' \<notin> set (tree_rail_names (sysfs env_no_driver))
   \<and> energymon_init_jetson env_duplicate_name None (w0\<lparr>w_budget := 3\<rparr>) =
     Some (- 1, None, w0\<lparr>w_errno := Some ENOMEM, w_budget := 0\<rparr>)
   \<and> \<not> distinct (comma_list ''GPU,CPU,GPU'')"
  by code_simp

text \<open>
  A name file that does not end in a newline is outside of what is stated above. The
  first channel names VDD_MUX; the name file of the second holds the three bytes GPU,
  which \<^verbatim>\<open>read\<close> writes over the start of the buffer, and the name that is compared
  is GPU_MUX. Initialization for the rails VDD_MUX and GPU_MUX succeeds on a tree that
  exposes no rail GPU_MUX.
\<close>

lemma name_without_newline:
  "energymon_init_jetson env_stale_name None w0 =
     Some (0, Some \<lparr>polling_delay_us = 100000, poll_sensors = 1, total_uj = 0, count = 2,
                    fds = [5, 6]\<rparr>,
           w0\<lparr>w_open := [6, 5], w_live := 1, w_budget := 94, w_thread := True\<rparr>)
   \<and> tree_rail_names (sysfs env_stale_name) = [''VDD_MUX'', ''GPU'']
   \<and> \<not> tree_ok (sysfs env_stale_name)"
  by code_simp

end
